theory Spec2Isabelle
  imports Complex_Main "HOL-Library.Log_Nat"
begin

section \<open>The URL validator (main.py, validate\_url)\<close>

text \<open>
  \<^verbatim>\<open>validate_url\<close> compiles one regular expression with \<^verbatim>\<open>re.IGNORECASE\<close> and returns
  \<^verbatim>\<open>bool(pattern.match(url))\<close>. The expression is embedded as a term of the datatype
  \<open>rx\<close>, piece by piece as the source writes it, and \<open>ends r s i\<close> lists the positions
  at which a match of \<open>r\<close> that starts at position \<open>i\<close> of \<open>s\<close> can end. Only the
  existence of a match is observed, so the order in which the engine tries the
  alternatives does not matter.

  For the validator a string is a list of characters, one per code point, and the code
  points below 256 are covered. There the class \<^verbatim>\<open>\d\<close> holds the ten ASCII digits, \<^verbatim>\<open>[A-Z]\<close> under
  \<^verbatim>\<open>IGNORECASE\<close> holds the 52 ASCII letters, and \<^verbatim>\<open>\S\<close> excludes the characters
  09-0D, 1C-20, 85 and A0.
\<close>

datatype rx =
    Eps
  | Bol
  | Eol
  | Cls "char \<Rightarrow> bool"
  | Seq rx rx
  | Alt rx rx
  | Rep nat "nat option" rx

primrec exactly :: "nat \<Rightarrow> (nat \<Rightarrow> nat list) \<Rightarrow> nat \<Rightarrow> nat list" where
  "exactly 0 f i = [i]"
| "exactly (Suc n) f i = concat (map (exactly n f) (f i))"

primrec at_most :: "nat \<Rightarrow> (nat \<Rightarrow> nat list) \<Rightarrow> nat \<Rightarrow> nat list" where
  "at_most 0 f i = [i]"
| "at_most (Suc n) f i = concat (map (at_most n f) (f i)) @ [i]"

text \<open>
  \<open>Bol\<close> is \<^verbatim>\<open>^\<close> and \<open>Eol\<close> is \<^verbatim>\<open>$\<close> without \<^verbatim>\<open>re.MULTILINE\<close>: the end of the string, or
  just before a newline that is the last character. \<open>Rep lo (Some hi) r\<close> is
  \<^verbatim>\<open>r{lo,hi}\<close>; \<open>Rep lo None r\<close> has no upper bound: an iteration that consumes nothing
  reaches no new position, so \<open>length s\<close> further iterations reach every end position.
\<close>

primrec ends :: "rx \<Rightarrow> string \<Rightarrow> nat \<Rightarrow> nat list" where
  "ends Eps s i = [i]"
| "ends Bol s i = (if i = 0 then [i] else [])"
| "ends Eol s i =
     (if i = length s then [i]
      else if Suc i = length s \<and> s ! i = CHR 0x0A then [i] else [])"
| "ends (Cls P) s i = (if i < length s \<and> P (s ! i) then [Suc i] else [])"
| "ends (Seq a b) s i = concat (map (ends b s) (ends a s i))"
| "ends (Alt a b) s i = ends a s i @ ends b s i"
| "ends (Rep lo hi r) s i =
     concat (map (at_most (case hi of Some h \<Rightarrow> h - lo | None \<Rightarrow> length s) (ends r s))
                 (exactly lo (ends r s) i))"

definition is_digit :: "char \<Rightarrow> bool" where
  "is_digit c = ((48::nat) \<le> of_char c \<and> of_char c \<le> (57::nat))"

definition is_upper :: "char \<Rightarrow> bool" where
  "is_upper c = ((65::nat) \<le> of_char c \<and> of_char c \<le> (90::nat))"

definition is_lower :: "char \<Rightarrow> bool" where
  "is_lower c = ((97::nat) \<le> of_char c \<and> of_char c \<le> (122::nat))"

definition is_letter :: "char \<Rightarrow> bool" where
  "is_letter c = (is_upper c \<or> is_lower c)"

definition is_space :: "char \<Rightarrow> bool" where
  "is_space c = ((of_char c :: nat) \<in> {9, 10, 11, 12, 13, 28, 29, 30, 31, 32, 133, 160})"

definition to_lower :: "char \<Rightarrow> char" where
  "to_lower c = (if is_upper c then char_of (of_char c + (32::nat)) else c)"

definition to_upper :: "char \<Rightarrow> char" where
  "to_upper c = (if is_lower c then char_of (of_char c - (32::nat)) else c)"

text \<open>A literal character under \<^verbatim>\<open>IGNORECASE\<close>, and a literal word.\<close>

definition Lit :: "char \<Rightarrow> rx" where
  "Lit c = Cls (\<lambda>d. to_lower d = to_lower c)"

primrec Word :: "string \<Rightarrow> rx" where
  "Word [] = Eps"
| "Word (c # cs) = Seq (Lit c) (Word cs)"

definition Opt :: "rx \<Rightarrow> rx" where
  "Opt r = Rep 0 (Some 1) r"

definition Plus :: "rx \<Rightarrow> rx" where
  "Plus r = Rep 1 None r"

definition alnum :: rx where
  "alnum = Cls (\<lambda>c. is_letter c \<or> is_digit c)"

definition alnum_dash :: rx where
  "alnum_dash = Cls (\<lambda>c. is_letter c \<or> is_digit c \<or> c = CHR ''-'')"

definition digits13 :: rx where
  "digits13 = Rep 1 (Some 3) (Cls is_digit)"

text \<open>\<^verbatim>\<open>(?:[A-Z0-9](?:[A-Z0-9-]{0,61}[A-Z0-9])?\.)+[A-Z]{2,6}\.?\<close>\<close>

definition domain_name :: rx where
  "domain_name =
     Seq (Plus (Seq alnum (Seq (Opt (Seq (Rep 0 (Some 61) alnum_dash) alnum)) (Lit CHR ''.''))))
         (Seq (Rep 2 (Some 6) (Cls is_letter)) (Opt (Lit CHR ''.'')))"

text \<open>\<^verbatim>\<open>\d{1,3}\.\d{1,3}\.\d{1,3}\.\d{1,3}\<close>\<close>

definition ipv4 :: rx where
  "ipv4 =
     Seq digits13 (Seq (Lit CHR ''.'') (Seq digits13 (Seq (Lit CHR ''.'')
       (Seq digits13 (Seq (Lit CHR ''.'') digits13)))))"

definition host :: rx where
  "host = Alt domain_name (Alt (Word ''localhost'') ipv4)"

text \<open>\<^verbatim>\<open>(?::\d+)?\<close> and \<^verbatim>\<open>(?:/?|[/?]\S+)\<close>\<close>

definition port :: rx where
  "port = Opt (Seq (Lit CHR '':'') (Plus (Cls is_digit)))"

definition path :: rx where
  "path =
     Alt (Opt (Lit CHR ''/''))
         (Seq (Cls (\<lambda>c. c = CHR ''/'' \<or> c = CHR ''?'')) (Plus (Cls (\<lambda>c. \<not> is_space c))))"

text \<open>The part of the pattern before the final \<^verbatim>\<open>$\<close>, and the whole pattern.\<close>

definition url_body :: rx where
  "url_body =
     Seq Bol (Seq (Word ''http'') (Seq (Opt (Lit CHR ''s'')) (Seq (Word ''://'')
       (Seq host (Seq port path)))))"

definition url_pattern :: rx where
  "url_pattern = Seq url_body Eol"

definition validate_url :: "string \<Rightarrow> bool" where
  "validate_url url = (ends url_pattern url 0 \<noteq> [])"

text \<open>An expression in which \<^verbatim>\<open>$\<close> does not occur.\<close>

primrec eol_free :: "rx \<Rightarrow> bool" where
  "eol_free Eps = True"
| "eol_free Bol = True"
| "eol_free Eol = False"
| "eol_free (Cls P) = True"
| "eol_free (Seq a b) = (eol_free a \<and> eol_free b)"
| "eol_free (Alt a b) = (eol_free a \<and> eol_free b)"
| "eol_free (Rep lo hi r) = eol_free r"

text \<open>An expression none of whose character classes holds the newline.\<close>

primrec newline_free :: "rx \<Rightarrow> bool" where
  "newline_free Eps = True"
| "newline_free Bol = True"
| "newline_free Eol = True"
| "newline_free (Cls P) = (\<not> P (CHR 0x0A))"
| "newline_free (Seq a b) = (newline_free a \<and> newline_free b)"
| "newline_free (Alt a b) = (newline_free a \<and> newline_free b)"
| "newline_free (Rep lo hi r) = newline_free r"

text \<open>No newline in \<open>s\<close> from position \<open>i\<close> up to position \<open>j\<close>.\<close>

definition no_newline :: "string \<Rightarrow> nat \<Rightarrow> nat \<Rightarrow> bool" where
  "no_newline s i j = (i \<le> j \<and> list_all (\<lambda>p. s ! p \<noteq> CHR 0x0A) [i..<j])"

section \<open>Python values\<close>

text \<open>
  The values the program handles are what \<^verbatim>\<open>response.json()\<close> returns and what the
  normalizer builds from them: \<^verbatim>\<open>None\<close>, booleans, integers, floats, strings, lists and
  dictionaries with string keys. A dictionary is an association list in insertion order,
  each key listed once. A string of these values, and every text built from them, is
  held as the list of its UTF-8 bytes, a lone surrogate as the three bytes that the error
  handler \<^verbatim>\<open>surrogatepass\<close> writes for it: every Python string has exactly one such list,
  the strings that the program writes itself are ASCII and are their own bytes, and
  equality, concatenation and the search of an ASCII string in a string are the same on
  the bytes. A float is the rational it denotes, an infinity or NaN;
  \<open>round_double\<close> rounds a rational to the nearest double (53 bits, ties to even,
  exponents -1074 to 971), as every float operation of Python does.
\<close>

datatype pyfloat = Finite rat | PosInf | NegInf | NaN

datatype json =
    JNull
  | JBool bool
  | JInt int
  | JFloat pyfloat
  | JStr string
  | JArr "json list"
  | JObj "(string \<times> json) list"





text \<open>Exceptions: the class, as far as the handlers tell classes apart, and \<^verbatim>\<open>str(e)\<close>.\<close>

datatype exn_class =
    RequestException
  | KeyError
  | TypeError
  | AttributeError
  | UnboundLocalError
  | UnicodeEncodeError
  | PyException

datatype exn = Exn (cls: exn_class) (msg: string)

definition and_then :: "exn + 'a \<Rightarrow> ('a \<Rightarrow> exn + 'b) \<Rightarrow> exn + 'b" where
  "and_then m f = (case m of Inl e \<Rightarrow> Inl e | Inr x \<Rightarrow> f x)"

fun type_name :: "json \<Rightarrow> string" where
  "type_name JNull = ''NoneType''"
| "type_name (JBool b) = ''bool''"
| "type_name (JInt n) = ''int''"
| "type_name (JFloat f) = ''float''"
| "type_name (JStr s) = ''str''"
| "type_name (JArr xs) = ''list''"
| "type_name (JObj m) = ''dict''"

fun starts_with :: "string \<Rightarrow> string \<Rightarrow> bool" where
  "starts_with [] s = True"
| "starts_with (c # cs) [] = False"
| "starts_with (c # cs) (d # ds) = (c = d \<and> starts_with cs ds)"

text \<open>\<^verbatim>\<open>sub in s\<close> for two strings.\<close>

fun contains :: "string \<Rightarrow> string \<Rightarrow> bool" where
  "contains sub [] = (sub = [])"
| "contains sub (c # cs) = (starts_with sub (c # cs) \<or> contains sub cs)"

text \<open>\<^verbatim>\<open>repr\<close> of a key without quotes or escapes in it, which is \<^verbatim>\<open>str\<close> of its KeyError.\<close>

definition py_repr :: "string \<Rightarrow> string" where
  "py_repr k = [CHR 0x27] @ k @ [CHR 0x27]"

text \<open>\<^verbatim>\<open>k in c\<close>, \<^verbatim>\<open>c[k]\<close>, \<^verbatim>\<open>c.get(k, d)\<close> and \<^verbatim>\<open>c.keys()\<close> for a string \<open>k\<close>.\<close>

fun py_in :: "string \<Rightarrow> json \<Rightarrow> exn + bool" where
  "py_in k (JObj m) = Inr (map_of m k \<noteq> None)"
| "py_in k (JArr xs) = Inr (JStr k \<in> set xs)"
| "py_in k (JStr s) = Inr (contains k s)"
| "py_in k c =
     Inl (Exn TypeError (''argument of type '' @ py_repr (type_name c) @ '' is not iterable''))"

fun py_getitem :: "json \<Rightarrow> string \<Rightarrow> exn + json" where
  "py_getitem (JObj m) k =
     (case map_of m k of Some v \<Rightarrow> Inr v | None \<Rightarrow> Inl (Exn KeyError (py_repr k)))"
| "py_getitem (JArr xs) k =
     Inl (Exn TypeError ''list indices must be integers or slices, not str'')"
| "py_getitem (JStr s) k =
     Inl (Exn TypeError (''string indices must be integers, not '' @ py_repr ''str''))"
| "py_getitem c k =
     Inl (Exn TypeError (py_repr (type_name c) @ '' object is not subscriptable''))"

fun py_get :: "json \<Rightarrow> string \<Rightarrow> json \<Rightarrow> exn + json" where
  "py_get (JObj m) k d = Inr (case map_of m k of Some v \<Rightarrow> v | None \<Rightarrow> d)"
| "py_get c k d =
     Inl (Exn AttributeError
       (py_repr (type_name c) @ '' object has no attribute '' @ py_repr ''get''))"

fun py_keys :: "json \<Rightarrow> exn + string list" where
  "py_keys (JObj m) = Inr (map fst m)"
| "py_keys c =
     Inl (Exn AttributeError
       (py_repr (type_name c) @ '' object has no attribute '' @ py_repr ''keys''))"

text \<open>
  \<^verbatim>\<open>print(text)\<close> writes the text to \<^verbatim>\<open>sys.stdout\<close>, which encodes it. The stream is an
  input of the program: for each text, \<open>None\<close> when the stream writes it, or the
  exception that writing it raises, a \<^verbatim>\<open>UnicodeEncodeError\<close> when the encoding of the
  stream has no code for one of the characters (a character above 7F on an ASCII stream,
  a lone surrogate on a UTF-8 stream).
\<close>

type_synonym stdout = "string \<Rightarrow> exn option"

definition py_print :: "stdout \<Rightarrow> string \<Rightarrow> exn + unit" where
  "py_print stdout text = (case stdout text of None \<Rightarrow> Inr () | Some e \<Rightarrow> Inl e)"

text \<open>\<^verbatim>\<open>d[k] = v\<close> on a dictionary.\<close>

primrec dict_set :: "(string \<times> json) list \<Rightarrow> string \<Rightarrow> json \<Rightarrow> (string \<times> json) list" where
  "dict_set [] k v = [(k, v)]"
| "dict_set (p # ps) k v = (if fst p = k then (k, v) # ps else p # dict_set ps k v)"

text \<open>\<^verbatim>\<open>sep.join(ws)\<close>, \<^verbatim>\<open>s.split(sep)\<close>, \<^verbatim>\<open>s.replace(a, b)\<close> for characters, \<^verbatim>\<open>s.capitalize()\<close>.\<close>

fun py_join :: "string \<Rightarrow> string list \<Rightarrow> string" where
  "py_join sep [] = []"
| "py_join sep [w] = w"
| "py_join sep (w # ws) = w @ sep @ py_join sep ws"

fun py_split :: "char \<Rightarrow> string \<Rightarrow> string list" where
  "py_split sep [] = [[]]"
| "py_split sep (c # cs) =
     (if c = sep then [] # py_split sep cs
      else (case py_split sep cs of [] \<Rightarrow> [[c]] | w # ws \<Rightarrow> (c # w) # ws))"

definition py_replace :: "char \<Rightarrow> char \<Rightarrow> string \<Rightarrow> string" where
  "py_replace a b s = map (\<lambda>c. if c = a then b else c) s"

fun py_capitalize :: "string \<Rightarrow> string" where
  "py_capitalize [] = []"
| "py_capitalize (c # cs) = to_upper c # map to_lower cs"

section \<open>The audit client (utils/api\_client.py)\<close>

subsection \<open>Categories (lines 51 to 101)\<close>

definition category_keys :: "(string \<times> string list) list" where
  "category_keys =
     [(''performance'', [''performance'']),
      (''accessibility'', [''accessibility'']),
      (''best-practices'', [''best-practices'', ''bestPractices'']),
      (''seo'', [''seo''])]"

text \<open>
  Lines 64 to 70, the safe score extraction: \<open>JNull\<close> is Python's \<^verbatim>\<open>None\<close>. Lines 72 to
  74 store \<^verbatim>\<open>{'score': score if score is not None else 0}\<close>.
\<close>

definition extract_score :: "json \<Rightarrow> json" where
  "extract_score category_data =
     (case category_data of
        JObj m \<Rightarrow> (case map_of m ''score'' of Some v \<Rightarrow> v | None \<Rightarrow> JNull)
      | _ \<Rightarrow> JNull)"

definition score_entry :: "json \<Rightarrow> json" where
  "score_entry score = JObj [(''score'', if score = JNull then JInt 0 else score)]"

text \<open>The inner loop over \<^verbatim>\<open>possible_keys\<close>: the entry of the first key found, if any.\<close>

fun try_keys :: "json \<Rightarrow> string list \<Rightarrow> exn + json option" where
  "try_keys categories [] = Inr None"
| "try_keys categories (api_key # rest) =
     (case py_in api_key categories of
        Inl e \<Rightarrow> Inl e
      | Inr found \<Rightarrow>
          if found then
            (case py_getitem categories api_key of
               Inl e \<Rightarrow> Inl e
             | Inr category_data \<Rightarrow> Inr (Some (score_entry (extract_score category_data))))
          else try_keys categories rest)"

text \<open>Lines 80 to 82, the alternative key formats, and lines 86 and 92.\<close>

definition kebab_key :: "string \<Rightarrow> string" where
  "kebab_key our_key = py_replace CHR ''_'' CHR ''-'' our_key"

definition camel_key :: "string \<Rightarrow> string" where
  "camel_key our_key =
     (case py_split CHR ''-'' our_key of
        [] \<Rightarrow> []
      | w # ws \<Rightarrow> w @ concat (map py_capitalize ws))"

definition alt_score :: "json \<Rightarrow> json" where
  "alt_score category_data =
     (case category_data of
        JObj m \<Rightarrow> (case map_of m ''score'' of Some v \<Rightarrow> v | None \<Rightarrow> JInt 0)
      | _ \<Rightarrow> JInt 0)"

definition missing_warning :: "string \<Rightarrow> string list \<Rightarrow> string" where
  "missing_warning our_key available =
     ''Warning: Category '' @ py_repr our_key @ '' not found. Available: ''
       @ py_join '', '' available"

text \<open>
  One turn of the outer loop: the entry stored under \<open>our_key\<close> and the lines printed,
  or the exception that leaves the loop. The \<^verbatim>\<open>print\<close> of line 101 is inside the try
  block, and what it raises leaves the loop like any other exception.
\<close>

definition process_category ::
  "stdout \<Rightarrow> json \<Rightarrow> string \<Rightarrow> string list \<Rightarrow> exn + json \<times> string list" where
  "process_category stdout categories our_key possible_keys =
     and_then (try_keys categories possible_keys) (\<lambda>found.
       case found of
         Some entry \<Rightarrow> Inr (entry, [])
       | None \<Rightarrow>
           and_then (py_in (kebab_key our_key) categories) (\<lambda>has_kebab.
             if has_kebab then
               and_then (py_getitem categories (kebab_key our_key)) (\<lambda>category_data.
                 Inr (score_entry (alt_score category_data), []))
             else
               and_then (py_in (camel_key our_key) categories) (\<lambda>has_camel.
                 if has_camel then
                   and_then (py_getitem categories (camel_key our_key)) (\<lambda>category_data.
                     Inr (score_entry (alt_score category_data), []))
                 else
                   and_then (py_keys categories) (\<lambda>available.
                   and_then (py_print stdout (missing_warning our_key available)) (\<lambda>_.
                     Inr (JObj [(''score'', JInt 0)], [missing_warning our_key available]))))))"

text \<open>
  The outer loop, over the entries still to do, with the categories stored and the lines
  printed so far. The lines printed stay printed when a later turn raises.
\<close>

fun process_categories ::
  "stdout \<Rightarrow> json \<Rightarrow> (string \<times> string list) list \<Rightarrow> (string \<times> json) list \<Rightarrow> string list
     \<Rightarrow> string list \<times> (exn + (string \<times> json) list)" where
  "process_categories stdout categories [] acc out = (out, Inr acc)"
| "process_categories stdout categories ((our_key, possible_keys) # rest) acc out =
     (case process_category stdout categories our_key possible_keys of
        Inl e \<Rightarrow> (out, Inl e)
      | Inr (entry, printed) \<Rightarrow>
          process_categories stdout categories rest (dict_set acc our_key entry) (out @ printed))"

subsection \<open>Audits (lines 103 to 126)\<close>

definition required_audits :: "string list" where
  "required_audits =
     [''first-contentful-paint'', ''interactive'', ''largest-contentful-paint'',
      ''cumulative-layout-shift'', ''total-blocking-time'', ''server-response-time'',
      ''interaction-to-next-paint'']"

definition default_audit :: json where
  "default_audit = JObj [(''displayValue'', JStr ''N/A''), (''score'', JInt 0)]"

text \<open>Lines 118 to 121, for an \<^verbatim>\<open>audit_data\<close> that is not \<^verbatim>\<open>None\<close>.\<close>

definition audit_entry :: "json \<Rightarrow> exn + json" where
  "audit_entry audit_data =
     and_then (py_get audit_data ''displayValue'' (JStr ''N/A'')) (\<lambda>display_value.
     and_then (py_get audit_data ''score'' JNull) (\<lambda>probe.
       if probe \<noteq> JNull then
         and_then (py_get audit_data ''score'' (JInt 0)) (\<lambda>score.
           Inr (JObj [(''displayValue'', display_value), (''score'', score)]))
       else Inr (JObj [(''displayValue'', display_value), (''score'', JInt 0)])))"

definition process_audit :: "json \<Rightarrow> string \<Rightarrow> exn + json" where
  "process_audit audits audit_key =
     and_then (py_in audit_key audits) (\<lambda>present.
       if present then
         and_then (py_getitem audits audit_key) (\<lambda>audit_data.
           if audit_data \<noteq> JNull then audit_entry audit_data else Inr default_audit)
       else Inr default_audit)"

fun process_audits ::
  "json \<Rightarrow> string list \<Rightarrow> (string \<times> json) list \<Rightarrow> exn + (string \<times> json) list" where
  "process_audits audits [] acc = Inr acc"
| "process_audits audits (audit_key # rest) acc =
     (case process_audit audits audit_key of
        Inl e \<Rightarrow> Inl e
      | Inr entry \<Rightarrow> process_audits audits rest (dict_set acc audit_key entry))"

subsection \<open>The try block (lines 31 to 128)\<close>

definition make_result :: "(string \<times> json) list \<Rightarrow> (string \<times> json) list \<Rightarrow> json" where
  "make_result categories audits =
     JObj [(''lighthouse_result'', JObj [(''categories'', JObj categories), (''audits'', JObj audits)])]"

text \<open>
  Lines 36 to 128, from the parsed response \<open>data\<close>: the lines printed, and the result or
  the exception that leaves the block. The exception comes with whether
  \<^verbatim>\<open>required_audits\<close> (line 105) was assigned before it was raised, which the last
  handler depends on.
\<close>

definition normalize :: "stdout \<Rightarrow> json \<Rightarrow> string list \<times> (exn \<times> bool + json)" where
  "normalize stdout data =
     (case py_in ''lighthouseResult'' data of
        Inl e \<Rightarrow> ([], Inl (e, False))
      | Inr present \<Rightarrow>
          if \<not> present then
            ([], Inl (Exn PyException ''Invalid API response: No lighthouse results found'', False))
          else
            (case and_then (py_getitem data ''lighthouseResult'')
                    (\<lambda>lighthouse. py_getitem lighthouse ''categories'') of
               Inl e \<Rightarrow> ([], Inl (e, False))
             | Inr categories \<Rightarrow>
                 (case process_categories stdout categories category_keys [] [] of
                    (out, Inl e) \<Rightarrow> (out, Inl (e, False))
                  | (out, Inr cats) \<Rightarrow>
                      (case and_then (py_getitem data ''lighthouseResult'')
                              (\<lambda>lighthouse. py_get lighthouse ''audits'' (JObj [])) of
                         Inl e \<Rightarrow> (out, Inl (e, False))
                       | Inr audits \<Rightarrow>
                           (case process_audits audits required_audits [] of
                              Inl e \<Rightarrow> (out, Inl (e, True))
                            | Inr auds \<Rightarrow> (out, Inr (make_result cats auds)))))))"

subsection \<open>The transport and the handlers (lines 30 to 34 and 130 to 163)\<close>

text \<open>
  What \<^verbatim>\<open>requests\<close> did is an input: either \<^verbatim>\<open>requests.get\<close> raised, and \<^verbatim>\<open>response\<close>
  is still \<^verbatim>\<open>None\<close>, or it returned a response with a status code, the text of the
  \<^verbatim>\<open>HTTPError\<close> that \<^verbatim>\<open>raise_for_status\<close> raises for it, and what \<^verbatim>\<open>response.json()\<close>
  returns or raises. A response is true as a condition when its status is no error
  status, which is when \<^verbatim>\<open>raise_for_status\<close> does not raise. The cache of
  \<^verbatim>\<open>st.cache_data\<close> is not modelled.
\<close>

record response =
  status_code :: nat
  http_error :: string
  json_body :: "exn + json"

datatype transport = NoResponse exn | Received response

definition response_ok :: "response \<Rightarrow> bool" where
  "response_ok r = (status_code r < 400 \<or> 600 \<le> status_code r)"

text \<open>
  The exceptions the function raises, by the line that raises them: 135, 137 (with
  \<^verbatim>\<open>error_detail\<close>), 139, 141, 143 and 163 (with \<^verbatim>\<open>str(e)\<close>), and an exception raised
  inside a handler, which leaves the function as it is.
\<close>

datatype failure =
    InvalidApiKey
  | BadRequest json
  | AccessForbidden
  | FetchFailed string
  | InvalidFormat string
  | ErrorOccurred string
  | Escaped exn

definition on_request_exception :: "response option \<Rightarrow> exn \<Rightarrow> failure" where
  "on_request_exception resp e =
     (case resp of
        None \<Rightarrow> FetchFailed (msg e)
      | Some r \<Rightarrow>
          if response_ok r \<and> status_code r = 400 then
            (case and_then (and_then (json_body r) (\<lambda>body. py_get body ''error'' (JObj [])))
                    (\<lambda>err. py_get err ''message'' (JStr [])) of
               Inl e' \<Rightarrow> Escaped e'
             | Inr error_detail \<Rightarrow>
                 (case py_in ''API key not valid'' error_detail of
                    Inl e' \<Rightarrow> Escaped e'
                  | Inr marked \<Rightarrow> if marked then InvalidApiKey else BadRequest error_detail))
          else if response_ok r \<and> status_code r = 403 then AccessForbidden
          else FetchFailed (msg e))"

definition default_result :: json where
  "default_result =
     make_result
       [(''performance'', JObj [(''score'', JInt 0)]),
        (''accessibility'', JObj [(''score'', JInt 0)]),
        (''best-practices'', JObj [(''score'', JInt 0)]),
        (''seo'', JObj [(''score'', JInt 0)])]
       (map (\<lambda>audit. (audit, default_audit)) required_audits)"

definition unbound_required_audits :: exn where
  "unbound_required_audits =
     Exn UnboundLocalError
       (''cannot access local variable '' @ py_repr ''required_audits''
          @ '' where it is not associated with a value'')"

definition score_error :: "string \<Rightarrow> exn \<Rightarrow> string" where
  "score_error url e = ''Score error for '' @ url @ '': '' @ msg e"

text \<open>
  The three \<^verbatim>\<open>except\<close> clauses, in their order, for an exception \<open>e\<close> of the try block;
  \<open>bound\<close> says whether \<^verbatim>\<open>required_audits\<close> is assigned. The \<^verbatim>\<open>print\<close> of line 147 is
  inside the handler: what it raises leaves the function.
\<close>

definition on_exception ::
  "stdout \<Rightarrow> response option \<Rightarrow> string \<Rightarrow> bool \<Rightarrow> exn \<Rightarrow> string list \<times> (failure + json)" where
  "on_exception stdout resp url bound e =
     (if cls e = RequestException then ([], Inl (on_request_exception resp e))
      else if cls e = KeyError then ([], Inl (InvalidFormat (msg e)))
      else if contains ''score'' (msg e) then
        (case py_print stdout (score_error url e) of
           Inl e' \<Rightarrow> ([], Inl (Escaped e'))
         | Inr _ \<Rightarrow>
             ([score_error url e],
              if bound then Inr default_result else Inl (Escaped unbound_required_audits)))
      else ([], Inl (ErrorOccurred (msg e))))"

definition fetch_metrics ::
  "stdout \<Rightarrow> string \<Rightarrow> transport \<Rightarrow> string list \<times> (failure + json)" where
  "fetch_metrics stdout url t =
     (case t of
        NoResponse e \<Rightarrow> on_exception stdout None url False e
      | Received r \<Rightarrow>
          if \<not> response_ok r then
            on_exception stdout (Some r) url False (Exn RequestException (http_error r))
          else
            (case json_body r of
               Inl e \<Rightarrow> on_exception stdout (Some r) url False e
             | Inr data \<Rightarrow>
                 (case normalize stdout data of
                    (out, Inr result) \<Rightarrow> (out, Inr result)
                  | (out, Inl (e, bound)) \<Rightarrow>
                      (case on_exception stdout (Some r) url bound e of
                         (printed, outcome) \<Rightarrow> (out @ printed, outcome)))))"

definition get_metrics ::
  "stdout \<Rightarrow> string \<Rightarrow> transport \<Rightarrow> string list \<times> (failure + json)" where
  "get_metrics stdout url t = fetch_metrics stdout url t"

section \<open>The exporter (main.py, export\_results)\<close>















section \<open>Reading a result\<close>

text \<open>
  The field of an object, and the value at the end of a path of fields; \<open>None\<close> when a
  step is not an object or lacks the field. The properties below are stated with them.
\<close>

definition obj_field :: "json \<Rightarrow> string \<Rightarrow> json option" where
  "obj_field v k = (case v of JObj m \<Rightarrow> map_of m k | _ \<Rightarrow> None)"

fun at_path :: "json \<Rightarrow> string list \<Rightarrow> json option" where
  "at_path v [] = Some v"
| "at_path v (k # ks) = (case obj_field v k of None \<Rightarrow> None | Some w \<Rightarrow> at_path w ks)"

definition keys_of :: "json \<Rightarrow> string list" where
  "keys_of v = (case v of JObj m \<Rightarrow> map fst m | _ \<Rightarrow> [])"

definition is_str :: "json \<Rightarrow> bool" where
  "is_str v = (case v of JStr s \<Rightarrow> True | _ \<Rightarrow> False)"

definition is_number :: "json \<Rightarrow> bool" where
  "is_number v = (case v of JInt n \<Rightarrow> True | JFloat f \<Rightarrow> True | _ \<Rightarrow> False)"

definition fixed_categories :: "string list" where
  "fixed_categories = [''performance'', ''accessibility'', ''best-practices'', ''seo'']"

text \<open>
  The code points of a text, read from its bytes from left to right: a byte from 80 to BF
  adds its six bits to the code point that was begun, any other byte begins a code point
  with its seven, five, four or three bits.
\<close>

definition next_byte :: "int list \<Rightarrow> char \<Rightarrow> int list" where
  "next_byte begun c =
     (let b = of_char c :: int in
      if 128 \<le> b \<and> b < 192 then
        (case begun of [] \<Rightarrow> [b mod 64] | cp # rest \<Rightarrow> (cp * 64 + b mod 64) # rest)
      else (if b < 128 then b else if b < 224 then b mod 32
            else if b < 240 then b mod 16 else b mod 8) # begun)"

definition code_points :: "string \<Rightarrow> int list" where
  "code_points text = rev (foldl next_byte [] text)"

text \<open>
  A stream with a strict encoding: it raises \<^verbatim>\<open>UnicodeEncodeError\<close> for a text with a
  character that the encoding has no code for. The message names the first run of such
  characters: the character, written \<^verbatim>\<open>'\xNN'\<close>, \<^verbatim>\<open>'\uNNNN'\<close> or \<^verbatim>\<open>'\UNNNNNNNN'\<close>, and its
  position when the run has one character, the first and the last position otherwise.
  ASCII has the codes below 80; UTF-8 has a code for every character but the surrogates,
  D800 to DFFF.
\<close>

fun decimal :: "nat \<Rightarrow> string" where
  "decimal n =
     (if n < 10 then [char_of (48 + n)] else decimal (n div 10) @ [char_of (48 + n mod 10)])"

definition hex_digit :: "nat \<Rightarrow> char" where
  "hex_digit n = ''0123456789abcdef'' ! n"

definition hex :: "nat \<Rightarrow> int \<Rightarrow> string" where
  "hex width n = map (\<lambda>i. hex_digit (nat (n div 16 ^ i mod 16))) (rev [0..<width])"

definition escape :: "int \<Rightarrow> string" where
  "escape cp =
     CHR 0x5C # (if cp < 256 then CHR ''x'' # hex 2 cp
                 else if cp < 65536 then CHR ''u'' # hex 4 cp
                 else CHR ''U'' # hex 8 cp)"

definition encode_error :: "string \<Rightarrow> (int \<Rightarrow> bool) \<Rightarrow> string \<Rightarrow> int list \<Rightarrow> string" where
  "encode_error codec encodable reason cps =
     (let start = length (takeWhile encodable cps);
          run = length (takeWhile (\<lambda>cp. \<not> encodable cp) (drop start cps))
      in py_repr codec @ '' codec can'' @ [CHR 0x27] @ ''t encode ''
           @ (if run = 1 then
                ''character '' @ py_repr (escape (cps ! start)) @ '' in position ''
                  @ decimal start
              else ''characters in position '' @ decimal start @ ''-''
                     @ decimal (start + run - 1))
           @ '': '' @ reason)"

definition strict_stdout :: "string \<Rightarrow> (int \<Rightarrow> bool) \<Rightarrow> string \<Rightarrow> stdout" where
  "strict_stdout codec encodable reason text =
     (if list_all encodable (code_points text) then None
      else Some (Exn UnicodeEncodeError (encode_error codec encodable reason (code_points text))))"

definition ascii_stdout :: stdout where
  "ascii_stdout = strict_stdout ''ascii'' (\<lambda>cp. cp < 128) ''ordinal not in range(128)''"

definition utf8_stdout :: stdout where
  "utf8_stdout =
     strict_stdout ''utf-8'' (\<lambda>cp. \<not> (55296 \<le> cp \<and> cp \<le> 57343)) ''surrogates not allowed''"

text \<open>A response with a success status whose body parses to \<open>data\<close>.\<close>

definition ok_response :: "json \<Rightarrow> transport" where
  "ok_response data = Received \<lparr>status_code = 200, http_error = [], json_body = Inr data\<rparr>"

text \<open>
  The shape that C1 claims for a result: under \<^verbatim>\<open>categories\<close> exactly the four fixed keys,
  each with a \<^verbatim>\<open>score\<close> field; under \<^verbatim>\<open>audits\<close> the seven fixed identifiers, each with a
  \<^verbatim>\<open>displayValue\<close> that is a string and a \<^verbatim>\<open>score\<close> field.
\<close>

definition claimed_shape :: "json \<Rightarrow> bool" where
  "claimed_shape r =
     (case (at_path r [''lighthouse_result'', ''categories''],
            at_path r [''lighthouse_result'', ''audits'']) of
        (Some categories, Some audits) \<Rightarrow>
          set (keys_of categories) = set fixed_categories \<and>
          list_all (\<lambda>k. at_path categories [k, ''score''] \<noteq> None) fixed_categories \<and>
          list_all (\<lambda>k. (case at_path audits [k, ''displayValue''] of
                            Some d \<Rightarrow> is_str d | None \<Rightarrow> False) \<and>
                         at_path audits [k, ''score''] \<noteq> None) required_audits
      | _ \<Rightarrow> False)"

text \<open>
  The shape a result has: as \<open>claimed_shape\<close>, with the keys in their order, and the
  \<^verbatim>\<open>displayValue\<close> of an audit being \<^verbatim>\<open>'N/A'\<close> or the value that the upstream response
  \<open>t\<close> gives for the audit, whatever its type (\<open>delivered_shape\<close>, below).
\<close>

text \<open>The \<^verbatim>\<open>displayValue\<close> the upstream response gives for an audit, if it gives one.\<close>

definition upstream_display_value :: "transport \<Rightarrow> string \<Rightarrow> json option" where
  "upstream_display_value t audit_key =
     (case t of
        NoResponse e \<Rightarrow> None
      | Received r \<Rightarrow>
          (case json_body r of
             Inl e \<Rightarrow> None
           | Inr data \<Rightarrow> at_path data [''lighthouseResult'', ''audits'', audit_key, ''displayValue'']))"

definition delivered_shape :: "transport \<Rightarrow> json \<Rightarrow> bool" where
  "delivered_shape t r =
     (case (at_path r [''lighthouse_result'', ''categories''],
            at_path r [''lighthouse_result'', ''audits'']) of
        (Some categories, Some audits) \<Rightarrow>
          keys_of categories = fixed_categories \<and>
          list_all (\<lambda>k. at_path categories [k, ''score''] \<noteq> None) fixed_categories \<and>
          keys_of audits = required_audits \<and>
          list_all (\<lambda>k. (case at_path audits [k, ''displayValue''] of
                            Some d \<Rightarrow> d = JStr ''N/A'' \<or> upstream_display_value t k = Some d
                          | None \<Rightarrow> False) \<and>
                         at_path audits [k, ''score''] \<noteq> None) required_audits
      | _ \<Rightarrow> False)"

text \<open>
  The entry the normalizer finds for a category in the upstream mapping (the first of its
  possible keys that is present), and the score C2 is about: 0 for an entry that is null,
  is no object, has no \<^verbatim>\<open>score\<close> field or has the score null, the score itself otherwise.
\<close>

definition first_present :: "(string \<times> json) list \<Rightarrow> string list \<Rightarrow> json option" where
  "first_present categories possible_keys =
     (case filter (\<lambda>k. map_of categories k \<noteq> None) possible_keys of
        [] \<Rightarrow> None
      | k # _ \<Rightarrow> map_of categories k)"

definition found_entry :: "(string \<times> json) list \<Rightarrow> string \<Rightarrow> json option" where
  "found_entry categories our_key =
     (case map_of category_keys our_key of
        None \<Rightarrow> None
      | Some possible_keys \<Rightarrow> first_present categories possible_keys)"

definition score_or_zero :: "json \<Rightarrow> json" where
  "score_or_zero entry =
     (case obj_field entry ''score'' of
        None \<Rightarrow> JInt 0
      | Some v \<Rightarrow> if v = JNull then JInt 0 else v)"

definition score_of :: "json \<Rightarrow> string \<Rightarrow> json option" where
  "score_of r category = at_path r [''lighthouse_result'', ''categories'', category, ''score'']"

text \<open>
  An upstream audits mapping in which each of the seven audits is absent, null or an
  object.
\<close>

definition audits_well_formed :: "(string \<times> json) list \<Rightarrow> bool" where
  "audits_well_formed audits =
     list_all (\<lambda>k. case map_of audits k of
                       None \<Rightarrow> True
                     | Some JNull \<Rightarrow> True
                     | Some (JObj m) \<Rightarrow> True
                     | Some _ \<Rightarrow> False) required_audits"

text \<open>
  What one turn of the category loop stores and prints when the upstream categories are
  an object: the score of the found entry, or 0 and the warning.
\<close>

definition category_outcome :: "(string \<times> json) list \<Rightarrow> string \<Rightarrow> json \<times> string list" where
  "category_outcome categories our_key =
     (case found_entry categories our_key of
        Some entry \<Rightarrow> (JObj [(''score'', score_or_zero entry)], [])
      | None \<Rightarrow> (JObj [(''score'', JInt 0)], [missing_warning our_key (map fst categories)]))"

text \<open>The audit entry built from an upstream audit that is an object.\<close>

definition audit_of :: "(string \<times> json) list \<Rightarrow> json" where
  "audit_of m =
     JObj [(''displayValue'', case map_of m ''displayValue'' of Some d \<Rightarrow> d | None \<Rightarrow> JStr ''N/A''),
           (''score'', case map_of m ''score'' of
                         Some s \<Rightarrow> if s = JNull then JInt 0 else s
                       | None \<Rightarrow> JInt 0)]"

text \<open>The entry stored for an audit when the upstream audits are a well-formed object.\<close>

definition normalized_audit :: "(string \<times> json) list \<Rightarrow> string \<Rightarrow> json" where
  "normalized_audit audits audit_key =
     (case map_of audits audit_key of Some (JObj m) \<Rightarrow> audit_of m | _ \<Rightarrow> default_audit)"

text \<open>
  The upstream audits of a result object: absent, or an object that is well formed; and
  the audits then read.
\<close>

definition audits_absent_or_well_formed :: "(string \<times> json) list \<Rightarrow> bool" where
  "audits_absent_or_well_formed lighthouse =
     (case map_of lighthouse ''audits'' of
        None \<Rightarrow> True
      | Some (JObj a) \<Rightarrow> audits_well_formed a
      | Some _ \<Rightarrow> False)"

definition upstream_audits :: "(string \<times> json) list \<Rightarrow> (string \<times> json) list" where
  "upstream_audits lighthouse =
     (case map_of lighthouse ''audits'' of Some (JObj a) \<Rightarrow> a | _ \<Rightarrow> [])"

text \<open>The result for upstream categories and audits that are objects as above.\<close>

definition normalized ::
  "(string \<times> json) list \<Rightarrow> (string \<times> json) list \<Rightarrow> json" where
  "normalized categories audits =
     make_result (map (\<lambda>k. (k, fst (category_outcome categories k))) fixed_categories)
       (map (\<lambda>k. (k, normalized_audit audits k)) required_audits)"

definition warnings :: "(string \<times> json) list \<Rightarrow> string list" where
  "warnings categories = concat (map (\<lambda>k. snd (category_outcome categories k)) fixed_categories)"

text \<open>The stream writes each of the warnings about the categories that are missing.\<close>

definition warnings_written :: "stdout \<Rightarrow> (string \<times> json) list \<Rightarrow> bool" where
  "warnings_written stdout categories = list_all (\<lambda>w. stdout w = None) (warnings categories)"

text \<open>
  Example responses: the result object \<open>lh\<close> with the categories \<open>cats\<close> and no audits,
  as the body \<^verbatim>\<open>{"lighthouseResult": {"categories": cats}}\<close>.
\<close>

definition with_categories :: "(string \<times> json) list \<Rightarrow> json" where
  "with_categories cats = JObj [(''lighthouseResult'', JObj [(''categories'', JObj cats)])]"

text \<open>
  A response whose audit \<^verbatim>\<open>interactive\<close> has the \<^verbatim>\<open>displayValue\<close> null; categories whose
  only key is the character U+0081, and categories whose only key is the lone surrogate
  U+D800.
\<close>

definition null_display_response :: json where
  "null_display_response =
     JObj [(''lighthouseResult'',
       JObj [(''categories'', JObj []),
             (''audits'', JObj [(''interactive'', JObj [(''displayValue'', JNull)])])])]"

definition latin_key_categories :: "(string \<times> json) list" where
  "latin_key_categories = [([CHR 0xC2, CHR 0x81], JObj [(''score'', JInt 1)])]"

definition surrogate_key_categories :: "(string \<times> json) list" where
  "surrogate_key_categories = [([CHR 0xED, CHR 0xA0, CHR 0x80], JObj [(''score'', JInt 1)])]"

definition camel_case_categories :: "(string \<times> json) list" where
  "camel_case_categories = [(''bestPractices'', JObj [(''score'', JFloat (Finite (1 / 2)))])]"

text \<open>
  The body \<^verbatim>\<open>{"lighthouseResult": {"categories": {"bestPractices": {"score": 0.5}},
  "audits": {"interactive": "fast"}}}\<close>, whose audit \<^verbatim>\<open>interactive\<close> is a string.
\<close>

definition string_audit_response :: json where
  "string_audit_response =
     JObj [(''lighthouseResult'',
       JObj [(''categories'', JObj camel_case_categories),
             (''audits'', JObj [(''interactive'', JStr ''fast'')])])]"

definition null_score_categories :: "(string \<times> json) list" where
  "null_score_categories = [(''performance'', JObj [(''score'', JNull)])]"

definition string_score_categories :: "(string \<times> json) list" where
  "string_score_categories = [(''performance'', JObj [(''score'', JStr ''high'')])]"

section \<open>Reading an export\<close>






section \<open>Properties of the validator\<close>

text \<open>
  C7: the validator returns true for \<^verbatim>\<open>https://example.com\<close> and
  \<^verbatim>\<open>http://192.168.1.1:8080/path\<close>, and false for \<^verbatim>\<open>ftp://x.com\<close> and \<^verbatim>\<open>not a url\<close>.
\<close>

theorem validate_url_examples:
  "validate_url ''https://example.com'' \<and>
   validate_url ''http://192.168.1.1:8080/path'' \<and>
   \<not> validate_url ''ftp://x.com'' \<and>
   \<not> validate_url ''not a url''"
  by code_simp

subsection \<open>A trailing newline\<close>

text \<open>
  Appending to the string keeps every match of an expression without \<^verbatim>\<open>$\<close>: the
  positions it can end at only grow.
\<close>

lemma exactly_mono:
  assumes "\<And>i. set (f i) \<subseteq> set (g i)"
  shows "set (exactly n f i) \<subseteq> set (exactly n g i)"
proof (induction n arbitrary: i)
  case 0
  show ?case by simp
next
  case (Suc n)
  show ?case using assms Suc by (auto, blast)
qed

lemma at_most_mono:
  assumes "\<And>i. set (f i) \<subseteq> set (g i)"
  shows "set (at_most n f i) \<subseteq> set (at_most n g i)"
proof (induction n arbitrary: i)
  case 0
  show ?case by simp
next
  case (Suc n)
  show ?case using assms Suc by (auto, blast)
qed

lemma at_most_Suc: "set (at_most n f i) \<subseteq> set (at_most (Suc n) f i)"
proof (induction n arbitrary: i)
  case 0
  show ?case by simp
next
  case (Suc n)
  have "set (at_most (Suc n) f i) = (\<Union>k\<in>set (f i). set (at_most n f k)) \<union> {i}"
    by auto
  also have "\<dots> \<subseteq> (\<Union>k\<in>set (f i). set (at_most (Suc n) f k)) \<union> {i}"
    using Suc by blast
  also have "\<dots> = set (at_most (Suc (Suc n)) f i)"
    by auto
  finally show ?case .
qed

lemma at_most_le: "n \<le> m \<Longrightarrow> set (at_most n f i) \<subseteq> set (at_most m f i)"
proof (induction m)
  case 0
  then show ?case by simp
next
  case (Suc m)
  show ?case
  proof (cases "n = Suc m")
    case True
    then show ?thesis by simp
  next
    case False
    with Suc have "set (at_most n f i) \<subseteq> set (at_most m f i)" by simp
    with at_most_Suc [of m f i] show ?thesis by blast
  qed
qed

lemma ends_append:
  "eol_free r \<Longrightarrow> set (ends r s i) \<subseteq> set (ends r (s @ t) i)"
proof (induction r arbitrary: i)
  case (Cls P)
  show ?case by (auto simp: nth_append)
next
  case (Seq a b)
  then show ?case by (auto, blast)
next
  case (Alt a b)
  then show ?case by auto
next
  case (Rep lo hi r)
  then have f: "\<And>i. set (ends r s i) \<subseteq> set (ends r (s @ t) i)" by simp
  let ?n = "case hi of Some h \<Rightarrow> h - lo | None \<Rightarrow> length s"
  let ?m = "case hi of Some h \<Rightarrow> h - lo | None \<Rightarrow> length (s @ t)"
  have nm: "?n \<le> ?m" by (cases hi) auto
  have a: "\<And>k. set (at_most ?n (ends r s) k) \<subseteq> set (at_most ?m (ends r (s @ t)) k)"
    using at_most_mono [of "ends r s" "ends r (s @ t)" ?n, OF f] at_most_le [OF nm] by blast
  have e: "set (exactly lo (ends r s) i) \<subseteq> set (exactly lo (ends r (s @ t)) i)"
    by (rule exactly_mono [OF f])
  show ?case
  proof
    fix j assume "j \<in> set (ends (Rep lo hi r) s i)"
    then obtain k where "k \<in> set (exactly lo (ends r s) i)"
      and "j \<in> set (at_most ?n (ends r s) k)" by auto
    with a e have "k \<in> set (exactly lo (ends r (s @ t)) i)"
      and "j \<in> set (at_most ?m (ends r (s @ t)) k)" by blast+
    then show "j \<in> set (ends (Rep lo hi r) (s @ t) i)" by auto
  qed
qed simp_all

lemma eol_free_url_body: "eol_free url_body"
  by (simp add: url_body_def host_def domain_name_def ipv4_def port_def path_def Opt_def Plus_def
      alnum_def alnum_dash_def digits13_def Lit_def)

lemma validate_url_iff:
  "validate_url s \<longleftrightarrow> (\<exists>k\<in>set (ends url_body s 0). ends Eol s k \<noteq> [])"
  by (simp add: validate_url_def url_pattern_def del: ends.simps(3))

lemma accepted_with_newline:
  assumes "validate_url s" and "\<not> (\<exists>t. s = t @ [CHR 0x0A])"
  shows "validate_url (s @ [CHR 0x0A])"
proof -
  from assms(1) obtain k where k: "k \<in> set (ends url_body s 0)" and e: "ends Eol s k \<noteq> []"
    unfolding validate_url_iff by blast
  have "k = length s"
  proof (rule ccontr)
    assume "k \<noteq> length s"
    with e have "Suc k = length s" and "s ! k = CHR 0x0A" by (auto split: if_splits)
    then have "s = take k s @ [CHR 0x0A]"
      by (metis lessI take_Suc_conv_app_nth take_all order_refl)
    with assms(2) show False by blast
  qed
  moreover from k eol_free_url_body have "k \<in> set (ends url_body (s @ [CHR 0x0A]) 0)"
    using ends_append by blast
  moreover have "ends Eol (s @ [CHR 0x0A]) (length s) \<noteq> []" by simp
  ultimately show ?thesis
    unfolding validate_url_iff by blast
qed

lemma example_newlines:
  "validate_url (''https://example.com'' @ [CHR 0x0A])"
  "\<not> validate_url (''https://example.com'' @ [CHR 0x0A, CHR 0x0A])"
  by code_simp+

text \<open>
  A match of an expression whose classes exclude the newline runs over no newline.
\<close>

lemma no_newline_iff:
  "no_newline s i j \<longleftrightarrow> i \<le> j \<and> (\<forall>p. i \<le> p \<and> p < j \<longrightarrow> s ! p \<noteq> CHR 0x0A)"
  by (auto simp: no_newline_def list_all_iff)

lemma no_newline_refl: "no_newline s i i"
  by (auto simp: no_newline_iff)

lemma no_newline_trans:
  assumes "no_newline s i k" and "no_newline s k j"
  shows "no_newline s i j"
proof -
  have "s ! p \<noteq> CHR 0x0A" if "i \<le> p" and "p < j" for p
  proof (cases "p < k")
    case True
    with assms(1) that(1) show ?thesis by (simp add: no_newline_iff)
  next
    case False
    with assms(2) that(2) show ?thesis by (simp add: no_newline_iff)
  qed
  moreover from assms have "i \<le> j" by (simp add: no_newline_iff)
  ultimately show ?thesis by (simp add: no_newline_iff)
qed

lemma exactly_no_newline:
  assumes "\<And>i j. j \<in> set (f i) \<Longrightarrow> no_newline s i j"
  shows "j \<in> set (exactly n f i) \<Longrightarrow> no_newline s i j"
proof (induction n arbitrary: i)
  case 0
  then show ?case by (simp add: no_newline_refl)
next
  case (Suc n)
  then obtain k where "k \<in> set (f i)" and "j \<in> set (exactly n f k)" by auto
  with assms Suc.IH show ?case by (blast intro: no_newline_trans)
qed

lemma at_most_no_newline:
  assumes "\<And>i j. j \<in> set (f i) \<Longrightarrow> no_newline s i j"
  shows "j \<in> set (at_most n f i) \<Longrightarrow> no_newline s i j"
proof (induction n arbitrary: i)
  case 0
  then show ?case by (simp add: no_newline_refl)
next
  case (Suc n)
  then consider k where "k \<in> set (f i)" and "j \<in> set (at_most n f k)" | "j = i" by auto
  then show ?case
  proof cases
    case 1
    with assms Suc.IH show ?thesis by (blast intro: no_newline_trans)
  next
    case 2
    then show ?thesis by (simp add: no_newline_refl)
  qed
qed

lemma ends_no_newline:
  "newline_free r \<Longrightarrow> j \<in> set (ends r s i) \<Longrightarrow> no_newline s i j"
proof (induction r arbitrary: i j)
  case (Cls P)
  then have "i < length s" and "P (s ! i)" and "j = Suc i" by (auto split: if_splits)
  with Cls.prems(1) show ?case
    by (auto simp: no_newline_iff less_Suc_eq_le)
next
  case (Seq a b)
  from Seq.prems obtain k where "k \<in> set (ends a s i)" and "j \<in> set (ends b s k)" by auto
  with Seq.IH Seq.prems(1) have "no_newline s i k" and "no_newline s k j" by simp_all
  then show ?case by (rule no_newline_trans)
next
  case (Alt a b)
  then show ?case by auto
next
  case (Rep lo hi r)
  then have f: "\<And>i j. j \<in> set (ends r s i) \<Longrightarrow> no_newline s i j" by simp
  from Rep.prems(2) obtain k where "k \<in> set (exactly lo (ends r s) i)"
    and "j \<in> set (at_most (case hi of Some h \<Rightarrow> h - lo | None \<Rightarrow> length s) (ends r s) k)"
    by auto
  with exactly_no_newline [of "ends r s" s, OF f] at_most_no_newline [of "ends r s" s, OF f]
  show ?case by (blast intro: no_newline_trans)
qed (auto simp: no_newline_refl split: if_splits)

lemma newline_free_url_body: "newline_free url_body"
  by code_simp

lemma rejected_after_newline:
  assumes "u \<noteq> []"
  shows "\<not> validate_url (t @ [CHR 0x0A] @ u)"
proof
  let ?s = "t @ [CHR 0x0A] @ u"
  assume "validate_url ?s"
  then obtain k where k: "k \<in> set (ends url_body ?s 0)" and e: "ends Eol ?s k \<noteq> []"
    unfolding validate_url_iff by blast
  from e have "k = length ?s \<or> Suc k = length ?s" by (auto split: if_splits)
  with assms have "length t < k" by (cases u) auto
  moreover from k newline_free_url_body have "no_newline ?s 0 k" by (rule ends_no_newline [rotated])
  ultimately have "?s ! length t \<noteq> CHR 0x0A" unfolding no_newline_iff by blast
  then show False by simp
qed

text \<open>
  C10, as the claim states it: every string the validator accepts is still accepted with
  one newline appended. It fails for an accepted string that already ends in a newline:
  \<^verbatim>\<open>$\<close> matches before one final newline, not before two.
\<close>

theorem newline_closure_counterexample:
  "validate_url (''https://example.com'' @ [CHR 0x0A]) \<and>
   \<not> validate_url ((''https://example.com'' @ [CHR 0x0A]) @ [CHR 0x0A])"
  using example_newlines by simp

text \<open>
  C10, amended: the validator accepts a string that contains a newline,
  \<^verbatim>\<open>https://example.com\<close> followed by a newline; every accepted string that does not
  itself end in a newline is also accepted with one newline appended; and every accepted
  string that already ends in a newline is rejected once a second newline is appended.
\<close>

theorem validate_url_trailing_newline:
  "validate_url (''https://example.com'' @ [CHR 0x0A]) \<and>
   (validate_url s \<and> \<not> (\<exists>t. s = t @ [CHR 0x0A]) \<longrightarrow> validate_url (s @ [CHR 0x0A])) \<and>
   (validate_url s \<and> (\<exists>t. s = t @ [CHR 0x0A]) \<longrightarrow> \<not> validate_url (s @ [CHR 0x0A]))"
proof -
  have "\<not> validate_url (s @ [CHR 0x0A])" if "s = t @ [CHR 0x0A]" for t
    using rejected_after_newline [of "[CHR 0x0A]" t] that by simp
  with example_newlines(1) accepted_with_newline show ?thesis by blast
qed

theorem validate_url_trailing_newline_witness:
  "validate_url ''http://localhost'' \<and> \<not> (\<exists>t. ''http://localhost'' = t @ [CHR 0x0A]) \<and>
   validate_url (''http://localhost'' @ [CHR 0x0A]) \<and>
   validate_url (''https://example.com'' @ [CHR 0x0A]) \<and>
   (\<exists>t. ''https://example.com'' @ [CHR 0x0A] = t @ [CHR 0x0A]) \<and>
   \<not> validate_url ((''https://example.com'' @ [CHR 0x0A]) @ [CHR 0x0A])"
proof -
  have a: "validate_url ''http://localhost''" by code_simp
  have b: "\<not> (\<exists>t. ''http://localhost'' = t @ [CHR 0x0A])"
  proof
    assume "\<exists>t. ''http://localhost'' = t @ [CHR 0x0A]"
    then obtain t where "''http://localhost'' = t @ [CHR 0x0A]" ..
    then have "last ''http://localhost'' = CHR 0x0A" by (metis last_snoc)
    then show False by simp
  qed
  have c: "validate_url (''https://example.com'' @ [CHR 0x0A])" by code_simp
  have d: "\<exists>t. ''https://example.com'' @ [CHR 0x0A] = t @ [CHR 0x0A]" by blast
  from a b validate_url_trailing_newline [of "''http://localhost''"]
  have 1: "validate_url (''http://localhost'' @ [CHR 0x0A])" by blast
  from c d validate_url_trailing_newline [of "''https://example.com'' @ [CHR 0x0A]"]
  have 2: "\<not> validate_url ((''https://example.com'' @ [CHR 0x0A]) @ [CHR 0x0A])" by blast
  from a b c d 1 2 show ?thesis by blast
qed

section \<open>Properties of the normalizer\<close>

subsection \<open>The two loops\<close>

lemma dict_set_fresh: "k \<notin> fst ` set acc \<Longrightarrow> dict_set acc k v = acc @ [(k, v)]"
  by (induction acc) auto

lemma process_audits_result:
  assumes "process_audits audits ks acc = Inr auds" and "distinct ks"
    and "set ks \<inter> fst ` set acc = {}"
  shows "\<exists>es. list_all2 (\<lambda>k e. process_audit audits k = Inr e) ks es \<and> auds = acc @ zip ks es"
  using assms
proof (induction ks arbitrary: acc)
  case Nil
  then show ?case by simp
next
  case (Cons k ks)
  from Cons.prems(1) obtain e where e: "process_audit audits k = Inr e"
    and rest: "process_audits audits ks (dict_set acc k e) = Inr auds"
    by (auto split: sum.splits)
  from Cons.prems(3) have fresh: "dict_set acc k e = acc @ [(k, e)]"
    by (intro dict_set_fresh) auto
  from Cons.prems(2,3) have "set ks \<inter> fst ` set (acc @ [(k, e)]) = {}" by auto
  with Cons.IH [of "acc @ [(k, e)]"] rest fresh Cons.prems(2)
  obtain es where "list_all2 (\<lambda>k e. process_audit audits k = Inr e) ks es"
    and "auds = (acc @ [(k, e)]) @ zip ks es" by auto
  with e have "list_all2 (\<lambda>k e. process_audit audits k = Inr e) (k # ks) (e # es)"
    and "auds = acc @ zip (k # ks) (e # es)" by auto
  then show ?case by blast
qed

lemma process_categories_result:
  assumes "process_categories stdout categories ks acc out = (out', Inr cats)"
    and "distinct (map fst ks)" and "fst ` set ks \<inter> fst ` set acc = {}"
  shows "\<exists>rs. list_all2 (\<lambda>(k, ps) r. process_category stdout categories k ps = Inr r) ks rs \<and>
               cats = acc @ zip (map fst ks) (map fst rs) \<and> out' = out @ concat (map snd rs)"
  using assms
proof (induction ks arbitrary: acc out)
  case Nil
  then show ?case by simp
next
  case (Cons p ks)
  obtain k ps where p: "p = (k, ps)" by (cases p)
  from Cons.prems(1) p obtain e printed
    where e: "process_category stdout categories k ps = Inr (e, printed)"
    and rest: "process_categories stdout categories ks (dict_set acc k e) (out @ printed)
        = (out', Inr cats)"
    by (auto split: sum.splits prod.splits)
  from Cons.prems(3) p have fresh: "dict_set acc k e = acc @ [(k, e)]"
    by (intro dict_set_fresh) auto
  from Cons.prems(2,3) p have "fst ` set ks \<inter> fst ` set (acc @ [(k, e)]) = {}" by auto
  with Cons.IH [of "acc @ [(k, e)]" "out @ printed"] rest fresh Cons.prems(2)
  obtain rs where "list_all2 (\<lambda>(k, ps) r. process_category stdout categories k ps = Inr r) ks rs"
    and "cats = (acc @ [(k, e)]) @ zip (map fst ks) (map fst rs)"
    and "out' = (out @ printed) @ concat (map snd rs)" by auto
  with e p have "list_all2 (\<lambda>(k, ps) r. process_category stdout categories k ps = Inr r)
      (p # ks) ((e, printed) # rs)"
    and "cats = acc @ zip (map fst (p # ks)) (map fst ((e, printed) # rs))"
    and "out' = out @ concat (map snd ((e, printed) # rs))" by auto
  then show ?case by blast
qed

lemma score_entry_extract: "score_entry (extract_score e) = JObj [(''score'', score_or_zero e)]"
  by (cases e) (auto simp: score_entry_def extract_score_def score_or_zero_def obj_field_def
      split: option.splits)

lemma key_variants:
  "kebab_key ''performance'' = ''performance''" "camel_key ''performance'' = ''performance''"
  "kebab_key ''accessibility'' = ''accessibility''" "camel_key ''accessibility'' = ''accessibility''"
  "kebab_key ''best-practices'' = ''best-practices''" "camel_key ''best-practices'' = ''bestPractices''"
  "kebab_key ''seo'' = ''seo''" "camel_key ''seo'' = ''seo''"
  by code_simp+


lemma first_present_Cons:
  "first_present cats (p # ps) =
     (case map_of cats p of Some v \<Rightarrow> Some v | None \<Rightarrow> first_present cats ps)"
  by (simp add: first_present_def split: option.splits)

lemma first_present_None: "first_present cats ps = None \<Longrightarrow> k \<in> set ps \<Longrightarrow> map_of cats k = None"
proof (induction ps)
  case Nil
  then show ?case by simp
next
  case (Cons p ps)
  from Cons.prems(1) have "map_of cats p = None" and "first_present cats ps = None"
    by (simp_all add: first_present_Cons split: option.splits)
  with Cons show ?case by auto
qed

lemma try_keys_obj:
  "try_keys (JObj cats) ps =
     Inr (map_option (\<lambda>v. JObj [(''score'', score_or_zero v)]) (first_present cats ps))"
proof (induction ps)
  case Nil
  show ?case by (simp add: first_present_def)
next
  case (Cons p ps)
  show ?case
  proof (cases "map_of cats p")
    case None
    with Cons show ?thesis by (simp add: first_present_Cons)
  next
    case (Some v)
    then show ?thesis by (simp add: first_present_Cons score_entry_extract)
  qed
qed

lemma process_category_obj_general:
  assumes "kebab_key k \<in> set ps" and "camel_key k \<in> set ps"
  shows "process_category stdout (JObj cats) k ps =
     (case first_present cats ps of
        Some e \<Rightarrow> Inr (JObj [(''score'', score_or_zero e)], [])
      | None \<Rightarrow>
          (case stdout (missing_warning k (map fst cats)) of
             None \<Rightarrow> Inr (JObj [(''score'', JInt 0)], [missing_warning k (map fst cats)])
           | Some e \<Rightarrow> Inl e))"
proof (cases "first_present cats ps")
  case None
  with assms have "map_of cats (kebab_key k) = None" and "map_of cats (camel_key k) = None"
    by (auto dest: first_present_None)
  with None show ?thesis
    by (simp add: process_category_def try_keys_obj and_then_def py_print_def
        split: option.splits)
next
  case (Some e)
  then show ?thesis
    by (simp add: process_category_def try_keys_obj and_then_def)
qed

lemma found_entry_first_present:
  "(k, ps) \<in> set category_keys \<Longrightarrow> found_entry cats k = first_present cats ps"
proof -
  assume "(k, ps) \<in> set category_keys"
  moreover have "distinct (map fst category_keys)"
    by (simp add: category_keys_def)
  ultimately have "map_of category_keys k = Some ps"
    by (rule map_of_is_SomeI [rotated])
  then show ?thesis
    by (simp add: found_entry_def)
qed

lemma process_category_obj:
  assumes "(k, ps) \<in> set category_keys"
  shows "process_category stdout (JObj cats) k ps =
     (case found_entry cats k of
        Some e \<Rightarrow> Inr (JObj [(''score'', score_or_zero e)], [])
      | None \<Rightarrow>
          (case stdout (missing_warning k (map fst cats)) of
             None \<Rightarrow> Inr (JObj [(''score'', JInt 0)], [missing_warning k (map fst cats)])
           | Some e \<Rightarrow> Inl e))"
proof -
  from assms have "kebab_key k \<in> set ps" and "camel_key k \<in> set ps"
    by (auto simp: category_keys_def key_variants)
  then show ?thesis
    by (simp add: process_category_obj_general found_entry_first_present [OF assms])
qed

lemma warnings_written_outcome:
  assumes "warnings_written stdout cats" and "k \<in> set fixed_categories"
    and "found_entry cats k = None"
  shows "stdout (missing_warning k (map fst cats)) = None"
proof -
  from assms(3) have "missing_warning k (map fst cats) \<in> set (snd (category_outcome cats k))"
    by (simp add: category_outcome_def)
  with assms(2) have "missing_warning k (map fst cats) \<in> set (warnings cats)"
    unfolding warnings_def by auto
  with assms(1) show ?thesis
    by (simp add: warnings_written_def list_all_iff)
qed

lemma process_category_written:
  assumes "(k, ps) \<in> set category_keys" and "warnings_written stdout cats"
  shows "process_category stdout (JObj cats) k ps = Inr (category_outcome cats k)"
proof -
  from assms(1) have "k \<in> set fixed_categories"
    by (auto simp: category_keys_def fixed_categories_def)
  with assms(2) have "found_entry cats k = None \<Longrightarrow> stdout (missing_warning k (map fst cats)) = None"
    by (rule warnings_written_outcome)
  then show ?thesis
    by (simp add: process_category_obj [OF assms(1)] category_outcome_def split: option.splits)
qed

lemma process_categories_obj:
  assumes "warnings_written stdout cats"
  shows "process_categories stdout (JObj cats) category_keys [] [] =
     (concat (map (\<lambda>k. snd (category_outcome cats k)) fixed_categories),
      Inr (map (\<lambda>k. (k, fst (category_outcome cats k))) fixed_categories))"
proof -
  note p = process_category_written [OF _ assms]
  have 1: "process_category stdout (JObj cats) ''performance'' [''performance'']
      = Inr (category_outcome cats ''performance'')"
    by (rule p) (simp add: category_keys_def)
  have 2: "process_category stdout (JObj cats) ''accessibility'' [''accessibility'']
      = Inr (category_outcome cats ''accessibility'')"
    by (rule p) (simp add: category_keys_def)
  have 3: "process_category stdout (JObj cats) ''best-practices''
        [''best-practices'', ''bestPractices'']
      = Inr (category_outcome cats ''best-practices'')"
    by (rule p) (simp add: category_keys_def)
  have 4: "process_category stdout (JObj cats) ''seo'' [''seo'']
      = Inr (category_outcome cats ''seo'')"
    by (rule p) (simp add: category_keys_def)
  show ?thesis
    by (simp add: category_keys_def fixed_categories_def 1 2 3 4 split: prod.splits)
qed

lemma process_audit_obj:
  "process_audit (JObj a) k =
     (case map_of a k of
        None \<Rightarrow> Inr default_audit
      | Some JNull \<Rightarrow> Inr default_audit
      | Some (JObj m) \<Rightarrow> Inr (audit_of m)
      | Some v \<Rightarrow> Inl (Exn AttributeError
          (py_repr (type_name v) @ '' object has no attribute '' @ py_repr ''get'')))"
  by (simp add: process_audit_def audit_entry_def audit_of_def and_then_def
      split: option.splits json.splits)


lemma process_audits_total:
  assumes "\<forall>k\<in>set ks. process_audit audits k = Inr (f k)" and "distinct ks"
    and "set ks \<inter> fst ` set acc = {}"
  shows "process_audits audits ks acc = Inr (acc @ map (\<lambda>k. (k, f k)) ks)"
  using assms
proof (induction ks arbitrary: acc)
  case Nil
  then show ?case by simp
next
  case (Cons k ks)
  from Cons.prems(3) have fresh: "dict_set acc k (f k) = acc @ [(k, f k)]"
    by (intro dict_set_fresh) auto
  from Cons.prems(2,3) have "set ks \<inter> fst ` set (acc @ [(k, f k)]) = {}" by auto
  with Cons.IH [of "acc @ [(k, f k)]"] Cons.prems(1,2)
  have "process_audits audits ks (acc @ [(k, f k)]) = Inr ((acc @ [(k, f k)]) @ map (\<lambda>k. (k, f k)) ks)"
    by simp
  with Cons.prems(1) fresh show ?case by simp
qed

lemma distinct_required_audits: "distinct required_audits"
  by (simp add: required_audits_def)

lemma process_audits_obj:
  assumes "audits_well_formed a"
  shows "process_audits (JObj a) required_audits [] =
     Inr (map (\<lambda>k. (k, normalized_audit a k)) required_audits)"
proof -
  have "\<forall>k\<in>set required_audits. process_audit (JObj a) k = Inr (normalized_audit a k)"
  proof
    fix k assume "k \<in> set required_audits"
    with assms have "case map_of a k of None \<Rightarrow> True | Some JNull \<Rightarrow> True
        | Some (JObj m) \<Rightarrow> True | Some _ \<Rightarrow> False"
      by (simp add: audits_well_formed_def list_all_iff)
    then show "process_audit (JObj a) k = Inr (normalized_audit a k)"
      by (simp add: process_audit_obj normalized_audit_def split: option.splits json.splits)
  qed
  from process_audits_total [OF this distinct_required_audits, of "[]"] show ?thesis by simp
qed

lemma normalize_obj:
  assumes "obj_field data ''lighthouseResult'' = Some (JObj lh)"
    and "map_of lh ''categories'' = Some (JObj cats)"
    and "warnings_written stdout cats"
  shows "normalize stdout data =
     (concat (map (\<lambda>k. snd (category_outcome cats k)) fixed_categories),
      case process_audits (case map_of lh ''audits'' of Some a \<Rightarrow> a | None \<Rightarrow> JObj [])
             required_audits [] of
        Inl e \<Rightarrow> Inl (e, True)
      | Inr auds \<Rightarrow>
          Inr (make_result (map (\<lambda>k. (k, fst (category_outcome cats k))) fixed_categories) auds))"
proof -
  from assms(1) obtain d where d: "data = JObj d" and l: "map_of d ''lighthouseResult'' = Some (JObj lh)"
    by (cases data) (simp_all add: obj_field_def)
  show ?thesis
    by (simp add: d l assms(2) normalize_def and_then_def process_categories_obj [OF assms(3)]
        split: sum.splits)
qed

lemma get_metrics_ok:
  "get_metrics stdout url (ok_response data) =
     (case normalize stdout data of
        (out, Inr r) \<Rightarrow> (out, Inr r)
      | (out, Inl (e, bound)) \<Rightarrow>
          (out @ fst (on_exception stdout
                        (Some \<lparr>status_code = 200, http_error = [], json_body = Inr data\<rparr>)
                        url bound e),
           snd (on_exception stdout
                  (Some \<lparr>status_code = 200, http_error = [], json_body = Inr data\<rparr>)
                  url bound e)))"
  by (simp add: get_metrics_def fetch_metrics_def ok_response_def response_ok_def
      split: prod.splits sum.splits)

lemma get_metrics_well_formed:
  assumes "obj_field data ''lighthouseResult'' = Some (JObj lh)"
    and "map_of lh ''categories'' = Some (JObj cats)"
    and "audits_absent_or_well_formed lh"
    and "warnings_written stdout cats"
  shows "get_metrics stdout url (ok_response data) =
     (warnings cats, Inr (normalized cats (upstream_audits lh)))"
proof -
  have "process_audits (case map_of lh ''audits'' of Some a \<Rightarrow> a | None \<Rightarrow> JObj [])
          required_audits []
        = Inr (map (\<lambda>k. (k, normalized_audit (upstream_audits lh) k)) required_audits)"
  proof (cases "map_of lh ''audits''")
    case None
    have "audits_well_formed []"
      by (simp add: audits_well_formed_def list_all_iff)
    with None show ?thesis
      by (simp add: process_audits_obj upstream_audits_def)
  next
    case (Some v)
    with assms(3) obtain a where "v = JObj a" and "audits_well_formed a"
      by (cases v) (simp_all add: audits_absent_or_well_formed_def)
    with Some show ?thesis
      by (simp add: process_audits_obj upstream_audits_def)
  qed
  then show ?thesis
    by (simp add: get_metrics_ok normalize_obj [OF assms(1,2,4)] normalized_def warnings_def)
qed

lemma get_metrics_no_categories:
  assumes "obj_field data ''lighthouseResult'' = Some (JObj lh)"
    and "map_of lh ''categories'' = None"
  shows "get_metrics stdout url (ok_response data)
    = ([], Inl (InvalidFormat (py_repr ''categories'')))"
proof -
  from assms(1) obtain d where d: "data = JObj d" and l: "map_of d ''lighthouseResult'' = Some (JObj lh)"
    by (cases data) (simp_all add: obj_field_def)
  have "normalize stdout data = ([], Inl (Exn KeyError (py_repr ''categories''), False))"
    by (simp add: d l assms(2) normalize_def and_then_def)
  then show ?thesis
    by (simp add: get_metrics_ok on_exception_def)
qed

lemma no_score_not_iterable:
  "\<not> contains ''score'' (''argument of type '' @ py_repr (type_name c) @ '' is not iterable'')"
  by (cases c) (simp_all add: py_repr_def)

lemma no_score_no_get:
  "\<not> contains ''score''
        (py_repr (type_name c) @ '' object has no attribute '' @ py_repr ''get'')"
  by (cases c) (simp_all add: py_repr_def)

lemma py_in_error:
  "py_in k c = Inl e \<Longrightarrow> cls e = TypeError \<and> \<not> contains ''score'' (msg e)"
  using no_score_not_iterable [of c] by (cases c) auto

lemma py_getitem_after_in:
  "py_in k c = Inr True \<Longrightarrow> py_getitem c k = Inl e \<Longrightarrow>
     cls e = TypeError \<and> \<not> contains ''score'' (msg e)"
  by (cases c) (auto simp: py_repr_def split: option.splits)

lemma py_get_error:
  "py_get c k d = Inl e \<Longrightarrow> cls e = AttributeError \<and> \<not> contains ''score'' (msg e)"
  using no_score_no_get [of c] by (cases c) auto

lemma audit_entry_error:
  "audit_entry v = Inl e \<Longrightarrow> cls e = AttributeError \<and> \<not> contains ''score'' (msg e)"
  by (auto simp: audit_entry_def and_then_def split: sum.splits if_splits dest: py_get_error)

lemma process_audit_error:
  assumes "process_audit audits k = Inl e"
  shows "(cls e = TypeError \<or> cls e = AttributeError) \<and> \<not> contains ''score'' (msg e)"
proof (cases "py_in k audits")
  case (Inl e')
  with assms have "e' = e" by (simp add: process_audit_def and_then_def)
  with Inl show ?thesis by (auto dest: py_in_error)
next
  case (Inr present)
  show ?thesis
  proof (cases present)
    case False
    with Inr assms show ?thesis by (simp add: process_audit_def and_then_def default_audit_def)
  next
    case True
    show ?thesis
    proof (cases "py_getitem audits k")
      case (Inl e')
      with Inr True assms have "e' = e" by (simp add: process_audit_def and_then_def)
      with Inl Inr True show ?thesis by (auto dest: py_getitem_after_in)
    next
      case (Inr v)
      with \<open>py_in k audits = Inr present\<close> True assms have "audit_entry v = Inl e"
        by (simp add: process_audit_def and_then_def split: if_splits)
      then show ?thesis by (auto dest: audit_entry_error)
    qed
  qed
qed

lemma process_audits_error:
  "process_audits audits ks acc = Inl e \<Longrightarrow>
     (cls e = TypeError \<or> cls e = AttributeError) \<and> \<not> contains ''score'' (msg e)"
proof (induction ks arbitrary: acc)
  case Nil
  then show ?case by simp
next
  case (Cons k ks)
  show ?case
  proof (cases "process_audit audits k")
    case (Inl e')
    with Cons.prems have "e' = e" by simp
    with Inl show ?thesis by (auto dest: process_audit_error)
  next
    case (Inr entry)
    with Cons.prems have "process_audits audits ks (dict_set acc k entry) = Inl e" by simp
    then show ?thesis by (rule Cons.IH)
  qed
qed


lemma get_metrics_obj:
  assumes "obj_field data ''lighthouseResult'' = Some (JObj lh)"
    and "map_of lh ''categories'' = Some (JObj cats)"
    and "warnings_written stdout cats"
  shows "get_metrics stdout url (ok_response data) =
     (warnings cats,
      case process_audits (case map_of lh ''audits'' of Some a \<Rightarrow> a | None \<Rightarrow> JObj [])
             required_audits [] of
        Inl e \<Rightarrow> Inl (ErrorOccurred (msg e))
      | Inr auds \<Rightarrow>
          Inr (make_result (map (\<lambda>k. (k, fst (category_outcome cats k))) fixed_categories) auds))"
proof (cases "process_audits (case map_of lh ''audits'' of Some a \<Rightarrow> a | None \<Rightarrow> JObj [])
             required_audits []")
  case (Inl e)
  from process_audits_error [OF Inl]
  have "cls e \<noteq> RequestException" and "cls e \<noteq> KeyError" and "\<not> contains ''score'' (msg e)"
    by auto
  then show ?thesis
    by (simp add: get_metrics_ok normalize_obj [OF assms] Inl on_exception_def warnings_def)
next
  case (Inr auds)
  then show ?thesis
    by (simp add: get_metrics_ok normalize_obj [OF assms] warnings_def)
qed

lemma score_of_make_result:
  "k \<in> set ks \<Longrightarrow>
     score_of (make_result (map (\<lambda>k. (k, fst (category_outcome cats k))) ks) auds) k
       = obj_field (fst (category_outcome cats k)) ''score''"
  by (simp add: score_of_def make_result_def obj_field_def map_of_map_restrict
      split: option.splits)

lemma category_outcome_score:
  "obj_field (fst (category_outcome cats k)) ''score'' =
     Some (case found_entry cats k of Some e \<Rightarrow> score_or_zero e | None \<Rightarrow> JInt 0)"
  by (simp add: category_outcome_def obj_field_def split: option.splits)

lemma other_warnings:
  "missing_warning ''best-practices'' ks \<noteq> missing_warning ''performance'' ks'"
  "missing_warning ''best-practices'' ks \<noteq> missing_warning ''accessibility'' ks'"
  "missing_warning ''best-practices'' ks \<noteq> missing_warning ''seo'' ks'"
  by (simp_all add: missing_warning_def py_repr_def)

lemma found_best_practices_no_warning:
  assumes "found_entry cats ''best-practices'' = Some e"
  shows "missing_warning ''best-practices'' ks \<notin> set (warnings cats)"
  using assms
  by (auto simp: warnings_def fixed_categories_def category_outcome_def other_warnings
      split: option.splits)

subsection \<open>A warning that cannot be written\<close>

lemma on_exception_unbound: "\<exists>f. snd (on_exception stdout resp url False e) = Inl f"
  by (simp add: on_exception_def split: sum.splits)

lemma list_all2_at:
  assumes "list_all2 P xs ys" and "x \<in> set xs"
  shows "\<exists>y. P x y"
proof -
  from assms(2) obtain i where "i < length xs" and "xs ! i = x"
    by (auto simp: in_set_conv_nth)
  with list_all2_nthD [OF assms(1), of i] show ?thesis by blast
qed

lemma process_categories_unwritten:
  assumes "\<not> warnings_written stdout cats"
  shows "\<exists>out e. process_categories stdout (JObj cats) category_keys [] [] = (out, Inl e)"
proof (cases "process_categories stdout (JObj cats) category_keys [] []")
  case (Pair out r)
  show ?thesis
  proof (cases r)
    case (Inl e)
    with Pair show ?thesis by simp
  next
    case (Inr cs)
    have "distinct (map fst category_keys)" by (simp add: category_keys_def)
    with Pair Inr process_categories_result [of stdout "JObj cats" category_keys "[]" "[]" out cs]
    obtain rs where rs: "list_all2 (\<lambda>(k, ps) r. process_category stdout (JObj cats) k ps = Inr r)
        category_keys rs" by auto
    have "stdout w = None" if "w \<in> set (warnings cats)" for w
    proof -
      from that obtain k where k: "k \<in> set fixed_categories"
        and w: "w \<in> set (snd (category_outcome cats k))"
        by (auto simp: warnings_def)
      from w have n: "found_entry cats k = None" and "w = missing_warning k (map fst cats)"
        by (auto simp: category_outcome_def split: option.splits)
      from k obtain ps where m: "(k, ps) \<in> set category_keys"
        by (auto simp: fixed_categories_def category_keys_def)
      from list_all2_at [OF rs m] obtain r where "process_category stdout (JObj cats) k ps = Inr r"
        by auto
      with n have "stdout (missing_warning k (map fst cats)) = None"
        by (simp add: process_category_obj [OF m] split: option.splits)
      with \<open>w = missing_warning k (map fst cats)\<close> show ?thesis by simp
    qed
    then have "warnings_written stdout cats"
      by (simp add: warnings_written_def list_all_iff)
    with assms show ?thesis by simp
  qed
qed

lemma get_metrics_unwritten:
  assumes "obj_field data ''lighthouseResult'' = Some (JObj lh)"
    and "map_of lh ''categories'' = Some (JObj cats)"
    and "\<not> warnings_written stdout cats"
  shows "\<exists>f. snd (get_metrics stdout url (ok_response data)) = Inl f"
proof -
  from assms(1) obtain d where d: "data = JObj d" and l: "map_of d ''lighthouseResult'' = Some (JObj lh)"
    by (cases data) (simp_all add: obj_field_def)
  from process_categories_unwritten [OF assms(3)] obtain out e
    where "process_categories stdout (JObj cats) category_keys [] [] = (out, Inl e)" by blast
  then have "normalize stdout data = (out, Inl (e, False))"
    by (simp add: d l assms(2) normalize_def and_then_def)
  with on_exception_unbound [of stdout
      "Some \<lparr>status_code = 200, http_error = [], json_body = Inr data\<rparr>" url e]
  show ?thesis
    by (auto simp: get_metrics_ok)
qed

subsection \<open>The shape of a result\<close>

lemma process_audit_entry:
  assumes "process_audit audits k = Inr e"
  shows "e = default_audit \<or>
    (\<exists>a m. audits = JObj a \<and> map_of a k = Some (JObj m) \<and> e = audit_of m)"
proof (cases audits)
  case (JObj a)
  with assms show ?thesis
    by (auto simp: process_audit_obj split: option.splits json.splits)
next
  case (JArr xs)
  with assms show ?thesis
    by (auto simp: process_audit_def and_then_def split: if_splits)
next
  case (JStr s)
  with assms show ?thesis
    by (auto simp: process_audit_def and_then_def split: if_splits)
qed (use assms in \<open>simp_all add: process_audit_def and_then_def\<close>)

lemma try_keys_entry:
  "try_keys categories ps = Inr (Some e) \<Longrightarrow> \<exists>v. e = JObj [(''score'', v)]"
  by (induction ps) (auto simp: score_entry_def split: sum.splits if_splits)

lemma process_category_entry:
  assumes "process_category stdout categories k ps = Inr (e, printed)"
  shows "\<exists>v. e = JObj [(''score'', v)]"
proof (cases "try_keys categories ps")
  case (Inl x)
  with assms show ?thesis by (simp add: process_category_def and_then_def)
next
  case (Inr found)
  show ?thesis
  proof (cases found)
    case (Some entry)
    with Inr assms have "entry = e" by (simp add: process_category_def and_then_def)
    with Inr Some show ?thesis by (auto dest: try_keys_entry)
  next
    case None
    with Inr assms show ?thesis
      by (auto simp: process_category_def and_then_def score_entry_def
          split: sum.splits if_splits)
  qed
qed

lemma zip_entry:
  assumes "list_all2 P ks es" and "distinct ks" and "k \<in> set ks"
  shows "\<exists>e. map_of (zip ks es) k = Some e \<and> P k e"
proof -
  from assms(3) obtain i where i: "i < length ks" and k: "ks ! i = k"
    by (auto simp: in_set_conv_nth)
  from assms(1) have l: "length ks = length es" by (rule list_all2_lengthD)
  with i assms(2) have "map_of (zip ks es) (ks ! i) = Some (es ! i)"
    by (simp add: map_of_zip_nth)
  moreover from assms(1) i have "P (ks ! i) (es ! i)" by (rule list_all2_nthD)
  ultimately show ?thesis using k by blast
qed

lemma getitem_obj:
  "py_getitem c k = Inr v \<Longrightarrow> \<exists>m. c = JObj m \<and> map_of m k = Some v"
  by (cases c) (auto split: option.splits)

lemma normalize_result:
  assumes "normalize stdout data = (out, Inr r)"
  shows "\<exists>d lh categories cs auds.
     data = JObj d \<and> map_of d ''lighthouseResult'' = Some (JObj lh) \<and>
     map_of lh ''categories'' = Some categories \<and>
     process_categories stdout categories category_keys [] [] = (out, Inr cs) \<and>
     process_audits (case map_of lh ''audits'' of Some a \<Rightarrow> a | None \<Rightarrow> JObj [])
       required_audits [] = Inr auds \<and>
     r = make_result cs auds"
proof -
  from assms obtain present where "py_in ''lighthouseResult'' data = Inr present" and present
    by (cases "py_in ''lighthouseResult'' data") (auto simp: normalize_def split: if_splits)
  with assms obtain categories
    where c: "and_then (py_getitem data ''lighthouseResult'')
                (\<lambda>lighthouse. py_getitem lighthouse ''categories'') = Inr categories"
    by (cases "and_then (py_getitem data ''lighthouseResult'')
                (\<lambda>lighthouse. py_getitem lighthouse ''categories'')")
      (auto simp: normalize_def)
  then obtain lighthouse where l: "py_getitem data ''lighthouseResult'' = Inr lighthouse"
    and g: "py_getitem lighthouse ''categories'' = Inr categories"
    by (cases "py_getitem data ''lighthouseResult''") (auto simp: and_then_def)
  from l obtain d where d: "data = JObj d" "map_of d ''lighthouseResult'' = Some lighthouse"
    by (auto dest: getitem_obj)
  from g obtain lh where lh: "lighthouse = JObj lh" "map_of lh ''categories'' = Some categories"
    by (auto dest: getitem_obj)
  from assms \<open>py_in ''lighthouseResult'' data = Inr present\<close> \<open>present\<close> c
  obtain cs where cs: "process_categories stdout categories category_keys [] [] = (out, Inr cs)"
    and rest: "(case and_then (py_getitem data ''lighthouseResult'')
                       (\<lambda>lighthouse. py_get lighthouse ''audits'' (JObj [])) of
                  Inl e \<Rightarrow> (out, Inl (e, False))
                | Inr audits \<Rightarrow>
                    (case process_audits audits required_audits [] of
                       Inl e \<Rightarrow> (out, Inl (e, True))
                     | Inr auds \<Rightarrow> (out, Inr (make_result cs auds)))) = (out, Inr r)"
    by (cases "process_categories stdout categories category_keys [] []")
      (auto simp: normalize_def split: sum.splits)
  from d lh have a: "and_then (py_getitem data ''lighthouseResult'')
                       (\<lambda>lighthouse. py_get lighthouse ''audits'' (JObj []))
      = Inr (case map_of lh ''audits'' of Some a \<Rightarrow> a | None \<Rightarrow> JObj [])"
    by (simp add: and_then_def)
  from rest obtain auds
    where "process_audits (case map_of lh ''audits'' of Some a \<Rightarrow> a | None \<Rightarrow> JObj [])
             required_audits [] = Inr auds" and "r = make_result cs auds"
    unfolding a by (auto split: sum.splits)
  with d lh cs show ?thesis by blast
qed

lemma default_result_shape: "delivered_shape t default_result"
  by (simp add: delivered_shape_def default_result_def make_result_def obj_field_def keys_of_def
      fixed_categories_def required_audits_def default_audit_def)

lemma made_result_shape:
  assumes cs: "list_all2 (\<lambda>k e. \<exists>v. e = JObj [(''score'', v)]) fixed_categories ces"
    and auds: "list_all2 (\<lambda>k e. \<exists>d v. e = JObj [(''displayValue'', d), (''score'', v)] \<and>
                   (d = JStr ''N/A'' \<or> upstream_display_value t k = Some d)) required_audits aes"
  shows "delivered_shape t (make_result (zip fixed_categories ces) (zip required_audits aes))"
proof -
  have dc: "distinct fixed_categories" by (simp add: fixed_categories_def)
  from cs have lc: "length fixed_categories = length ces" by (rule list_all2_lengthD)
  from auds have la: "length required_audits = length aes" by (rule list_all2_lengthD)
  have 1: "keys_of (JObj (zip fixed_categories ces)) = fixed_categories"
    using lc by (simp add: keys_of_def)
  have 2: "keys_of (JObj (zip required_audits aes)) = required_audits"
    using la by (simp add: keys_of_def)
  have 3: "at_path (JObj (zip fixed_categories ces)) [k, ''score''] \<noteq> None"
    if "k \<in> set fixed_categories" for k
  proof -
    from zip_entry [OF cs dc that] obtain v
      where "map_of (zip fixed_categories ces) k = Some (JObj [(''score'', v)])" by blast
    then show ?thesis by (simp add: obj_field_def)
  qed
  have 4: "(case at_path (JObj (zip required_audits aes)) [k, ''displayValue''] of
              Some d \<Rightarrow> d = JStr ''N/A'' \<or> upstream_display_value t k = Some d
            | None \<Rightarrow> False) \<and>
           at_path (JObj (zip required_audits aes)) [k, ''score''] \<noteq> None"
    if "k \<in> set required_audits" for k
  proof -
    from zip_entry [OF auds distinct_required_audits that] obtain d v
      where "map_of (zip required_audits aes) k = Some (JObj [(''displayValue'', d), (''score'', v)])"
        and "d = JStr ''N/A'' \<or> upstream_display_value t k = Some d" by blast
    then show ?thesis by (simp add: obj_field_def)
  qed
  have p: "at_path (make_result (zip fixed_categories ces) (zip required_audits aes))
             [''lighthouse_result'', ''categories''] = Some (JObj (zip fixed_categories ces))"
    "at_path (make_result (zip fixed_categories ces) (zip required_audits aes))
             [''lighthouse_result'', ''audits''] = Some (JObj (zip required_audits aes))"
    by (simp_all add: make_result_def obj_field_def)
  show ?thesis
    unfolding delivered_shape_def p using 1 2 3 4 by (simp add: list_all_iff)
qed

lemma audit_entry_shape:
  assumes "process_audit (case map_of lh ''audits'' of Some a \<Rightarrow> a | None \<Rightarrow> JObj []) k = Inr e"
    and "json_body resp = Inr (JObj d)" and "map_of d ''lighthouseResult'' = Some (JObj lh)"
  shows "\<exists>dv v. e = JObj [(''displayValue'', dv), (''score'', v)] \<and>
           (dv = JStr ''N/A'' \<or> upstream_display_value (Received resp) k = Some dv)"
proof -
  from process_audit_entry [OF assms(1)]
  consider "e = default_audit"
    | a m where "(case map_of lh ''audits'' of Some a \<Rightarrow> a | None \<Rightarrow> JObj []) = JObj a"
        and "map_of a k = Some (JObj m)" and "e = audit_of m"
    by blast
  then show ?thesis
  proof cases
    case 1
    then show ?thesis by (simp add: default_audit_def)
  next
    case 2
    from 2(1,2) have a: "map_of lh ''audits'' = Some (JObj a)"
      by (cases "map_of lh ''audits''") auto
    show ?thesis
    proof (cases "map_of m ''displayValue''")
      case None
      with 2(3) show ?thesis by (simp add: audit_of_def)
    next
      case (Some dv)
      with a 2(2) assms(2,3) have "upstream_display_value (Received resp) k = Some dv"
        by (simp add: upstream_display_value_def obj_field_def)
      with Some 2(3) show ?thesis by (simp add: audit_of_def)
    qed
  qed
qed

lemma normalize_shape:
  assumes "normalize stdout data = (out, Inr r)" and "json_body resp = Inr data"
  shows "delivered_shape (Received resp) r"
proof -
  from normalize_result [OF assms(1)] obtain d lh categories cs auds
    where d: "data = JObj d" "map_of d ''lighthouseResult'' = Some (JObj lh)"
      and cs: "process_categories stdout categories category_keys [] [] = (out, Inr cs)"
      and auds: "process_audits (case map_of lh ''audits'' of Some a \<Rightarrow> a | None \<Rightarrow> JObj [])
          required_audits [] = Inr auds"
      and r: "r = make_result cs auds"
    by blast
  have k: "map fst category_keys = fixed_categories"
    by (simp add: category_keys_def fixed_categories_def)
  have "distinct (map fst category_keys)" by (simp add: category_keys_def)
  with process_categories_result [OF cs] obtain rs
    where rs: "list_all2 (\<lambda>(k, ps) r. process_category stdout categories k ps = Inr r)
        category_keys rs"
      and c: "cs = zip fixed_categories (map fst rs)"
    by (auto simp: k)
  from rs have "list_all2 (\<lambda>p r. \<exists>v. fst r = JObj [(''score'', v)]) category_keys rs"
    by (rule list_all2_mono) (auto dest: process_category_entry)
  then have 1: "list_all2 (\<lambda>k e. \<exists>v. e = JObj [(''score'', v)]) fixed_categories (map fst rs)"
    unfolding k [symmetric] by (simp add: list_all2_map1 list_all2_map2)
  from process_audits_result [OF auds distinct_required_audits] obtain es
    where es: "list_all2 (\<lambda>k e. process_audit
                 (case map_of lh ''audits'' of Some a \<Rightarrow> a | None \<Rightarrow> JObj []) k = Inr e)
               required_audits es"
      and a: "auds = zip required_audits es"
    by auto
  from es have 2: "list_all2 (\<lambda>k e. \<exists>dv v. e = JObj [(''displayValue'', dv), (''score'', v)] \<and>
      (dv = JStr ''N/A'' \<or> upstream_display_value (Received resp) k = Some dv)) required_audits es"
  proof (rule list_all2_mono)
    fix k e
    assume "process_audit (case map_of lh ''audits'' of Some a \<Rightarrow> a | None \<Rightarrow> JObj []) k = Inr e"
    with assms(2) d show "\<exists>dv v. e = JObj [(''displayValue'', dv), (''score'', v)] \<and>
      (dv = JStr ''N/A'' \<or> upstream_display_value (Received resp) k = Some dv)"
      by (intro audit_entry_shape) simp_all
  qed
  from made_result_shape [OF 1 2] show ?thesis
    by (simp add: r c a)
qed

lemma on_exception_result:
  "snd (on_exception stdout resp url bound e) = Inr r \<Longrightarrow> r = default_result"
  by (simp add: on_exception_def split: if_splits sum.splits)

lemma get_metrics_result:
  assumes "snd (get_metrics stdout url t) = Inr r"
  shows "delivered_shape t r"
proof (cases t)
  case (NoResponse e)
  with assms on_exception_unbound [of stdout None url e] show ?thesis
    by (simp add: get_metrics_def fetch_metrics_def)
next
  case (Received resp)
  show ?thesis
  proof (cases "response_ok resp")
    case False
    with assms Received
      on_exception_unbound [of stdout "Some resp" url "Exn RequestException (http_error resp)"]
    show ?thesis
      by (simp add: get_metrics_def fetch_metrics_def)
  next
    case True
    show ?thesis
    proof (cases "json_body resp")
      case (Inl e)
      with assms Received True on_exception_unbound [of stdout "Some resp" url e] show ?thesis
        by (simp add: get_metrics_def fetch_metrics_def)
    next
      case (Inr data)
      obtain out res where n: "normalize stdout data = (out, res)"
        by (cases "normalize stdout data")
      show ?thesis
      proof (cases res)
        case (Inr result)
        with assms Received True \<open>json_body resp = Inr data\<close> n have "result = r"
          by (simp add: get_metrics_def fetch_metrics_def)
        with n Inr normalize_shape [of stdout data out r resp] \<open>json_body resp = Inr data\<close> Received
        show ?thesis by simp
      next
        case (Inl eb)
        obtain e bound where "eb = (e, bound)" by (cases eb)
        with assms Received True \<open>json_body resp = Inr data\<close> n Inl
        have "snd (on_exception stdout (Some resp) url bound e) = Inr r"
          by (simp add: get_metrics_def fetch_metrics_def split: prod.splits)
        then have "r = default_result" by (rule on_exception_result)
        then show ?thesis by (simp add: default_result_shape)
      qed
    qed
  qed
qed

subsection \<open>Example responses and streams\<close>

lemma code_points_examples:
  "code_points ''seo'' = [115, 101, 111]"
  "code_points [CHR 0xC3, CHR 0xA9] = [233]"
  "code_points [CHR 0xED, CHR 0xA0, CHR 0x80] = [55296]"
  "code_points [CHR 0xF0, CHR 0x9F, CHR 0x98, CHR 0x80] = [128512]"
  by code_simp+

lemma utf8_writes_warnings:
  "warnings_written utf8_stdout []"
  "warnings_written utf8_stdout camel_case_categories"
  "warnings_written utf8_stdout null_score_categories"
  "warnings_written utf8_stdout string_score_categories"
  by code_simp+

lemma with_categories_fields:
  "obj_field (with_categories cats) ''lighthouseResult'' = Some (JObj [(''categories'', JObj cats)])"
  "map_of [(''categories'', JObj cats)] ''categories'' = Some (JObj cats)"
  "audits_absent_or_well_formed [(''categories'', JObj cats)]"
  "upstream_audits [(''categories'', JObj cats)] = []"
  by (simp_all add: with_categories_def obj_field_def audits_absent_or_well_formed_def
      upstream_audits_def)

lemma found_camel_case:
  assumes "map_of cats ''best-practices'' = None" and "map_of cats ''bestPractices'' = Some e"
  shows "found_entry cats ''best-practices'' = Some e"
  using assms by (simp add: found_entry_def category_keys_def first_present_def)

lemma normalized_score:
  assumes "k \<in> set fixed_categories"
  shows "score_of (normalized cats auds) k =
     Some (case found_entry cats k of Some e \<Rightarrow> score_or_zero e | None \<Rightarrow> JInt 0)"
  using assms by (simp add: normalized_def score_of_make_result category_outcome_score)
subsection \<open>Missing categories, missing audits\<close>

lemma utf8_stream_refuses:
  "\<not> warnings_written utf8_stdout surrogate_key_categories"
  by code_simp

lemma utf8_stream_failure:
  "get_metrics utf8_stdout ''https://example.com''
       (ok_response (with_categories surrogate_key_categories))
     = ([], Inl (ErrorOccurred
         (py_repr ''utf-8'' @ '' codec can'' @ [CHR 0x27] @ ''t encode character ''
            @ py_repr [CHR 0x5C, CHR ''u'', CHR ''d'', CHR ''8'', CHR ''0'', CHR ''0'']
            @ '' in position 54: surrogates not allowed'')))"
  by code_simp

lemma ascii_stream_failure:
  "get_metrics ascii_stdout ''https://example.com'' (ok_response (with_categories latin_key_categories))
     = ([], Inl (ErrorOccurred
         (py_repr ''ascii'' @ '' codec can'' @ [CHR 0x27] @ ''t encode character ''
            @ py_repr [CHR 0x5C, CHR ''x'', CHR ''8'', CHR ''1'']
            @ '' in position 54: ordinal not in range(128)'')))"
  by code_simp

text \<open>
  C4, as the claim states it: a response whose result object omits the categories mapping
  still succeeds. It does not: line 41 subscripts the result object with
  \<^verbatim>\<open>'categories'\<close>, the KeyError reaches the clause of line 142, and the call fails with
  \<^verbatim>\<open>Invalid API response format: 'categories'\<close>.
\<close>

theorem missing_categories_counterexample:
  "obj_field (JObj [(''lighthouseResult'', JObj [])]) ''lighthouseResult'' = Some (JObj []) \<and>
   get_metrics utf8_stdout ''https://example.com''
       (ok_response (JObj [(''lighthouseResult'', JObj [])]))
     = ([], Inl (InvalidFormat (py_repr ''categories'')))"
  by (simp add: obj_field_def get_metrics_no_categories)

text \<open>
  C4, amended: for every response whose result object has a categories mapping (an
  object), with the audits mapping absent or an object whose seven audits are each absent,
  null or an object, the call succeeds when the stream writes each warning about a
  missing category, and every category and audit that is missing is defaulted; when the
  stream raises for one of these warnings the call fails; a response whose result object
  has no categories mapping fails with \<^verbatim>\<open>Invalid API response format: 'categories'\<close>.
\<close>

theorem optional_fields_default:
  "(obj_field data ''lighthouseResult'' = Some (JObj lh) \<and>
    map_of lh ''categories'' = Some (JObj cats) \<and> audits_absent_or_well_formed lh \<and>
    warnings_written stdout cats
    \<longrightarrow> snd (get_metrics stdout url (ok_response data))
          = Inr (normalized cats (upstream_audits lh))) \<and>
   (obj_field data ''lighthouseResult'' = Some (JObj lh) \<and>
    map_of lh ''categories'' = Some (JObj cats) \<and> \<not> warnings_written stdout cats
    \<longrightarrow> (\<exists>f. snd (get_metrics stdout url (ok_response data)) = Inl f)) \<and>
   (obj_field data ''lighthouseResult'' = Some (JObj lh) \<and> map_of lh ''categories'' = None
    \<longrightarrow> snd (get_metrics stdout url (ok_response data))
          = Inl (InvalidFormat (py_repr ''categories'')))"
  using get_metrics_unwritten [of data lh cats stdout url]
  by (simp add: get_metrics_well_formed get_metrics_no_categories)

theorem optional_fields_default_witness:
  "(obj_field (with_categories []) ''lighthouseResult'' = Some (JObj [(''categories'', JObj [])]) \<and>
    map_of [(''categories'', JObj [])] ''categories'' = Some (JObj []) \<and>
    audits_absent_or_well_formed [(''categories'', JObj [])] \<and>
    warnings_written utf8_stdout [] \<and>
    snd (get_metrics utf8_stdout [] (ok_response (with_categories [])))
      = Inr (normalized [] (upstream_audits [(''categories'', JObj [])]))) \<and>
   (obj_field (with_categories surrogate_key_categories) ''lighthouseResult''
      = Some (JObj [(''categories'', JObj surrogate_key_categories)]) \<and>
    map_of [(''categories'', JObj surrogate_key_categories)] ''categories''
      = Some (JObj surrogate_key_categories) \<and>
    \<not> warnings_written utf8_stdout surrogate_key_categories \<and>
    (\<exists>f. snd (get_metrics utf8_stdout [] (ok_response (with_categories surrogate_key_categories)))
       = Inl f)) \<and>
   (obj_field (JObj [(''lighthouseResult'', JObj [])]) ''lighthouseResult'' = Some (JObj []) \<and>
    map_of [] ''categories'' = (None :: json option) \<and>
    snd (get_metrics utf8_stdout [] (ok_response (JObj [(''lighthouseResult'', JObj [])])))
      = Inl (InvalidFormat (py_repr ''categories'')))"
proof -
  note a = with_categories_fields(1,2,3) [of "[]"]
  note w = utf8_writes_warnings(1)
  note b = with_categories_fields(1,2) [of surrogate_key_categories]
  note r = utf8_stream_refuses
  have d: "obj_field (JObj [(''lighthouseResult'', JObj [])]) ''lighthouseResult'' = Some (JObj [])"
    by (simp add: obj_field_def)
  have e: "map_of [] ''categories'' = (None :: json option)" by simp
  from optional_fields_default [of "with_categories []" "[(''categories'', JObj [])]" "[]"
      utf8_stdout "[]"] a w
  have 1: "snd (get_metrics utf8_stdout [] (ok_response (with_categories [])))
      = Inr (normalized [] (upstream_audits [(''categories'', JObj [])]))" by blast
  from optional_fields_default [of "with_categories surrogate_key_categories"
      "[(''categories'', JObj surrogate_key_categories)]" surrogate_key_categories utf8_stdout "[]"]
    b r
  have 2: "\<exists>f. snd (get_metrics utf8_stdout [] (ok_response (with_categories surrogate_key_categories)))
       = Inl f" by blast
  from optional_fields_default [of "JObj [(''lighthouseResult'', JObj [])]" "[]" _ utf8_stdout "[]"]
    d e have 3: "snd (get_metrics utf8_stdout [] (ok_response (JObj [(''lighthouseResult'', JObj [])])))
      = Inl (InvalidFormat (py_repr ''categories''))" by blast
  from a w b r d e 1 2 3 show ?thesis by blast
qed

text \<open>
  C6, as the claim states it: every response that has the result object and no audits
  object succeeds. A response whose result object has neither audits nor categories fails.
\<close>

theorem missing_audits_counterexample:
  "obj_field (JObj [(''lighthouseResult'', JObj [(''finalUrl'', JStr ''https://example.com'')])])
     ''lighthouseResult'' = Some (JObj [(''finalUrl'', JStr ''https://example.com'')]) \<and>
   map_of [(''finalUrl'', JStr ''https://example.com'')] ''audits'' = None \<and>
   snd (get_metrics utf8_stdout ''https://example.com''
          (ok_response (JObj [(''lighthouseResult'',
             JObj [(''finalUrl'', JStr ''https://example.com'')])])))
     = Inl (InvalidFormat (py_repr ''categories''))"
  by (simp add: obj_field_def get_metrics_no_categories)

text \<open>
  C6, amended: for every response whose result object has a categories mapping (an
  object) and no audits object, and for which the stream writes each warning about a
  missing category, the call succeeds and all seven audits are
  \<^verbatim>\<open>{displayValue: 'N/A', score: 0}\<close>.
\<close>

theorem missing_audits_default:
  assumes "obj_field data ''lighthouseResult'' = Some (JObj lh)"
    and "map_of lh ''categories'' = Some (JObj cats)"
    and "map_of lh ''audits'' = None"
    and "warnings_written stdout cats"
  shows "snd (get_metrics stdout url (ok_response data)) =
     Inr (make_result (map (\<lambda>k. (k, fst (category_outcome cats k))) fixed_categories)
            (map (\<lambda>k. (k, default_audit)) required_audits))"
proof -
  from assms(3) have "audits_absent_or_well_formed lh" and "upstream_audits lh = []"
    by (simp_all add: audits_absent_or_well_formed_def upstream_audits_def)
  with get_metrics_well_formed [OF assms(1,2) _ assms(4)] show ?thesis
    by (simp add: normalized_def normalized_audit_def)
qed

theorem missing_audits_default_witness:
  "obj_field (with_categories []) ''lighthouseResult'' = Some (JObj [(''categories'', JObj [])]) \<and>
   map_of [(''categories'', JObj [])] ''categories'' = Some (JObj []) \<and>
   map_of [(''categories'', JObj [])] ''audits'' = None \<and>
   warnings_written ascii_stdout [] \<and>
   snd (get_metrics ascii_stdout [] (ok_response (with_categories [])))
     = Inr (make_result (map (\<lambda>k. (k, fst (category_outcome [] k))) fixed_categories)
            (map (\<lambda>k. (k, default_audit)) required_audits))"
proof -
  note a = with_categories_fields(1,2) [of "[]"]
  have c: "map_of [(''categories'', JObj [])] ''audits'' = None" by simp
  have w: "warnings_written ascii_stdout []" by code_simp
  from missing_audits_default [OF a c w, of "[]"] a c w show ?thesis by blast
qed
subsection \<open>Scores of the categories\<close>

lemma string_audit_fields:
  "obj_field string_audit_response ''lighthouseResult''
     = Some (JObj [(''categories'', JObj camel_case_categories),
                   (''audits'', JObj [(''interactive'', JStr ''fast'')])])"
  "map_of [(''categories'', JObj camel_case_categories),
           (''audits'', JObj [(''interactive'', JStr ''fast'')])] ''categories''
     = Some (JObj camel_case_categories)"
  "map_of camel_case_categories ''best-practices'' = None"
  "map_of camel_case_categories ''bestPractices'' = Some (JObj [(''score'', JFloat (Finite (1 / 2)))])"
  by (simp_all add: string_audit_response_def obj_field_def camel_case_categories_def)

text \<open>
  C3, as the claim states it: every response whose categories lack \<^verbatim>\<open>best-practices\<close>
  and contain \<^verbatim>\<open>bestPractices\<close> with a score gets that score. A response of this kind
  whose audit \<^verbatim>\<open>interactive\<close> is a string gets no result: line 119 calls \<^verbatim>\<open>.get\<close> on the
  string, and the call fails with \<^verbatim>\<open>An error occurred: 'str' object has no attribute 'get'\<close>.
\<close>

theorem camel_case_counterexample:
  "map_of camel_case_categories ''best-practices'' = None \<and>
   map_of camel_case_categories ''bestPractices'' = Some (JObj [(''score'', JFloat (Finite (1 / 2)))]) \<and>
   at_path string_audit_response [''lighthouseResult'', ''categories'']
     = Some (JObj camel_case_categories) \<and>
   snd (get_metrics utf8_stdout ''https://example.com'' (ok_response string_audit_response))
     = Inl (ErrorOccurred
         (py_repr ''str'' @ '' object has no attribute '' @ py_repr ''get''))"
proof -
  have "snd (get_metrics utf8_stdout ''https://example.com'' (ok_response string_audit_response))
     = Inl (ErrorOccurred (py_repr ''str'' @ '' object has no attribute '' @ py_repr ''get''))"
    by (simp add: get_metrics_obj [OF string_audit_fields(1,2) utf8_writes_warnings(2)]
        required_audits_def process_audit_obj)
  moreover have "at_path string_audit_response [''lighthouseResult'', ''categories'']
     = Some (JObj camel_case_categories)"
    by (simp add: string_audit_response_def obj_field_def)
  ultimately show ?thesis
    using string_audit_fields(3,4) by simp
qed

text \<open>
  C3, amended: for every response whose categories (an object) lack \<^verbatim>\<open>best-practices\<close>
  and contain \<^verbatim>\<open>bestPractices\<close> with a score that is not null, whose audits mapping is
  absent or an object whose seven audits are each absent, null or an object, and for which
  the stream writes each warning about a missing category, the call returns a result that
  has that score under \<^verbatim>\<open>best-practices\<close>, and no warning about \<^verbatim>\<open>best-practices\<close> is
  printed.
\<close>

theorem camel_case_best_practices:
  assumes "obj_field data ''lighthouseResult'' = Some (JObj lh)"
    and "map_of lh ''categories'' = Some (JObj cats)"
    and "audits_absent_or_well_formed lh"
    and "warnings_written stdout cats"
    and "map_of cats ''best-practices'' = None"
    and "map_of cats ''bestPractices'' = Some (JObj bp)"
    and "map_of bp ''score'' = Some v" and "v \<noteq> JNull"
  shows "(\<forall>ks. missing_warning ''best-practices'' ks
            \<notin> set (fst (get_metrics stdout url (ok_response data)))) \<and>
         snd (get_metrics stdout url (ok_response data))
           = Inr (normalized cats (upstream_audits lh)) \<and>
         score_of (normalized cats (upstream_audits lh)) ''best-practices'' = Some v"
proof -
  from assms(5,6) have f: "found_entry cats ''best-practices'' = Some (JObj bp)"
    by (rule found_camel_case)
  from assms(7,8) have s: "score_or_zero (JObj bp) = v"
    by (simp add: score_or_zero_def obj_field_def)
  note g = get_metrics_well_formed [OF assms(1,2,3,4), of url]
  from f have 1: "\<forall>ks. missing_warning ''best-practices'' ks
      \<notin> set (fst (get_metrics stdout url (ok_response data)))"
    by (simp add: g found_best_practices_no_warning)
  have "''best-practices'' \<in> set fixed_categories"
    by (simp add: fixed_categories_def)
  then have 2: "score_of (normalized cats (upstream_audits lh)) ''best-practices'' = Some v"
    by (simp add: normalized_score f s)
  from 1 2 g show ?thesis by simp
qed

theorem camel_case_best_practices_witness:
  "obj_field (with_categories camel_case_categories) ''lighthouseResult''
     = Some (JObj [(''categories'', JObj camel_case_categories)]) \<and>
   map_of [(''categories'', JObj camel_case_categories)] ''categories''
     = Some (JObj camel_case_categories) \<and>
   audits_absent_or_well_formed [(''categories'', JObj camel_case_categories)] \<and>
   warnings_written utf8_stdout camel_case_categories \<and>
   map_of camel_case_categories ''best-practices'' = None \<and>
   map_of camel_case_categories ''bestPractices'' = Some (JObj [(''score'', JFloat (Finite (1 / 2)))]) \<and>
   map_of [(''score'', JFloat (Finite (1 / 2)))] ''score'' = Some (JFloat (Finite (1 / 2))) \<and>
   JFloat (Finite (1 / 2)) \<noteq> JNull \<and>
   (\<forall>ks. missing_warning ''best-practices'' ks
      \<notin> set (fst (get_metrics utf8_stdout [] (ok_response (with_categories camel_case_categories))))) \<and>
   snd (get_metrics utf8_stdout [] (ok_response (with_categories camel_case_categories)))
     = Inr (normalized camel_case_categories
              (upstream_audits [(''categories'', JObj camel_case_categories)])) \<and>
   score_of (normalized camel_case_categories
               (upstream_audits [(''categories'', JObj camel_case_categories)])) ''best-practices''
     = Some (JFloat (Finite (1 / 2)))"
proof -
  note a = with_categories_fields(1,2,3) [of camel_case_categories]
  note w = utf8_writes_warnings(2)
  note c = string_audit_fields(3,4)
  have e: "map_of [(''score'', JFloat (Finite (1 / 2)))] ''score'' = Some (JFloat (Finite (1 / 2)))"
    and f: "JFloat (Finite (1 / 2)) \<noteq> JNull"
    by simp_all
  from camel_case_best_practices [OF a w c e f, of "[]"] a w c e f show ?thesis by blast
qed

text \<open>
  C2, as the claim states it: an entry that lacks a numeric score is recorded with the
  score 0. The score \<^verbatim>\<open>"high"\<close> is no number, and it is recorded as it is: the
  normalizer tests the score against \<^verbatim>\<open>None\<close> only.
\<close>

theorem numeric_score_counterexample:
  "found_entry string_score_categories ''performance'' = Some (JObj [(''score'', JStr ''high'')]) \<and>
   \<not> is_number (JStr ''high'') \<and>
   snd (get_metrics utf8_stdout [] (ok_response (with_categories string_score_categories)))
     = Inr (normalized string_score_categories []) \<and>
   score_of (normalized string_score_categories []) ''performance'' = Some (JStr ''high'')"
proof -
  have d: "found_entry string_score_categories ''performance'' = Some (JObj [(''score'', JStr ''high'')])"
    by (simp add: found_entry_def first_present_def category_keys_def string_score_categories_def)
  have n: "\<not> is_number (JStr ''high'')" by (simp add: is_number_def)
  have g: "snd (get_metrics utf8_stdout [] (ok_response (with_categories string_score_categories)))
     = Inr (normalized string_score_categories [])"
    by (simp add: get_metrics_well_formed [OF with_categories_fields(1,2,3) utf8_writes_warnings(4)]
        with_categories_fields(4))
  have s: "score_of (normalized string_score_categories []) ''performance'' = Some (JStr ''high'')"
  proof -
    have "''performance'' \<in> set fixed_categories"
      by (simp add: fixed_categories_def)
    moreover have "score_or_zero (JObj [(''score'', JStr ''high'')]) = JStr ''high''"
      by (simp add: score_or_zero_def obj_field_def)
    ultimately show ?thesis
      by (simp add: normalized_score d)
  qed
  from d n g s show ?thesis by blast
qed

text \<open>
  C2, amended: for every response whose categories mapping (an object) has a found entry
  for a fixed category, whose audits mapping is absent or an object whose seven audits are
  each absent, null or an object, and for which the stream writes each warning about a
  missing category, the call returns a result, and the score recorded for the category is
  0 when the entry is null, is no object, has no \<^verbatim>\<open>score\<close> field or has the score null,
  and the raw score unchanged otherwise, whatever its type, an explicit 0 included
  (\<open>score_or_zero\<close>).
\<close>

theorem recorded_score:
  assumes "obj_field data ''lighthouseResult'' = Some (JObj lh)"
    and "map_of lh ''categories'' = Some (JObj cats)"
    and "audits_absent_or_well_formed lh"
    and "warnings_written stdout cats"
    and "k \<in> set fixed_categories"
    and "found_entry cats k = Some entry"
  shows "snd (get_metrics stdout url (ok_response data))
           = Inr (normalized cats (upstream_audits lh)) \<and>
         score_of (normalized cats (upstream_audits lh)) k = Some (score_or_zero entry)"
  using get_metrics_well_formed [OF assms(1,2,3,4), of url] normalized_score [OF assms(5)] assms(6)
  by simp

theorem recorded_score_witness:
  "obj_field (with_categories null_score_categories) ''lighthouseResult''
     = Some (JObj [(''categories'', JObj null_score_categories)]) \<and>
   map_of [(''categories'', JObj null_score_categories)] ''categories''
     = Some (JObj null_score_categories) \<and>
   audits_absent_or_well_formed [(''categories'', JObj null_score_categories)] \<and>
   warnings_written utf8_stdout null_score_categories \<and>
   ''performance'' \<in> set fixed_categories \<and>
   found_entry null_score_categories ''performance'' = Some (JObj [(''score'', JNull)]) \<and>
   score_or_zero (JObj [(''score'', JNull)]) = JInt 0 \<and>
   snd (get_metrics utf8_stdout [] (ok_response (with_categories null_score_categories)))
     = Inr (normalized null_score_categories
              (upstream_audits [(''categories'', JObj null_score_categories)])) \<and>
   score_of (normalized null_score_categories
               (upstream_audits [(''categories'', JObj null_score_categories)])) ''performance''
     = Some (score_or_zero (JObj [(''score'', JNull)]))"
proof -
  note a = with_categories_fields(1,2,3) [of null_score_categories]
  note w = utf8_writes_warnings(3)
  have c: "''performance'' \<in> set fixed_categories"
    by (simp add: fixed_categories_def)
  have d: "found_entry null_score_categories ''performance'' = Some (JObj [(''score'', JNull)])"
    by (simp add: found_entry_def first_present_def category_keys_def null_score_categories_def)
  have e: "score_or_zero (JObj [(''score'', JNull)]) = JInt 0"
    by (simp add: score_or_zero_def obj_field_def)
  from recorded_score [OF a w c d, of "[]"] a w c d e show ?thesis by blast
qed
subsection \<open>The shape of every result\<close>

lemma null_display_result:
  "snd (get_metrics utf8_stdout ''https://example.com'' (ok_response null_display_response))
     = Inr (normalized [] [(''interactive'', JObj [(''displayValue'', JNull)])])"
proof -
  let ?lh = "[(''categories'', JObj []),
              (''audits'', JObj [(''interactive'', JObj [(''displayValue'', JNull)])])]"
  have 1: "obj_field null_display_response ''lighthouseResult'' = Some (JObj ?lh)"
    by (simp add: null_display_response_def obj_field_def)
  have 2: "map_of ?lh ''categories'' = Some (JObj [])" by simp
  have 3: "audits_absent_or_well_formed ?lh"
    by (simp add: audits_absent_or_well_formed_def audits_well_formed_def required_audits_def)
  have 4: "upstream_audits ?lh = [(''interactive'', JObj [(''displayValue'', JNull)])]"
    by (simp add: upstream_audits_def)
  from get_metrics_well_formed [OF 1 2 3 utf8_writes_warnings(1)] show ?thesis
    by (simp add: 4)
qed

lemma null_display_value:
  "at_path (normalized [] [(''interactive'', JObj [(''displayValue'', JNull)])])
     [''lighthouse_result'', ''audits'', ''interactive'', ''displayValue''] = Some JNull"
  by (simp add: normalized_def make_result_def obj_field_def required_audits_def
      normalized_audit_def audit_of_def)

text \<open>
  C1, as the claim states it: in every result each audit has a \<^verbatim>\<open>displayValue\<close> that is a
  string. Line 118 copies the upstream \<^verbatim>\<open>displayValue\<close> as it is: for an upstream audit
  \<^verbatim>\<open>{"displayValue": null}\<close> the result has the \<^verbatim>\<open>displayValue\<close> \<^verbatim>\<open>None\<close>.
\<close>

theorem display_value_counterexample:
  "snd (get_metrics utf8_stdout ''https://example.com'' (ok_response null_display_response))
     = Inr (normalized [] [(''interactive'', JObj [(''displayValue'', JNull)])]) \<and>
   at_path (normalized [] [(''interactive'', JObj [(''displayValue'', JNull)])])
     [''lighthouse_result'', ''audits'', ''interactive'', ''displayValue''] = Some JNull \<and>
   \<not> is_str JNull \<and>
   \<not> claimed_shape (normalized [] [(''interactive'', JObj [(''displayValue'', JNull)])])"
proof -
  have "\<not> claimed_shape (normalized [] [(''interactive'', JObj [(''displayValue'', JNull)])])"
  proof
    assume "claimed_shape (normalized [] [(''interactive'', JObj [(''displayValue'', JNull)])])"
    then have "case at_path (normalized [] [(''interactive'', JObj [(''displayValue'', JNull)])])
        [''lighthouse_result'', ''audits'', ''interactive'', ''displayValue''] of
          Some d \<Rightarrow> is_str d | None \<Rightarrow> False"
      by (auto simp: claimed_shape_def required_audits_def split: option.splits)
    then have "is_str JNull"
      unfolding null_display_value by simp
    then show False
      by (simp add: is_str_def)
  qed
  with null_display_result null_display_value show ?thesis
    by (simp add: is_str_def)
qed

text \<open>
  C1, amended: for every input on which \<^verbatim>\<open>get_metrics\<close> returns a result, the all-default
  result included, the categories of the result are exactly the four fixed keys, in their
  order, each with a \<^verbatim>\<open>score\<close> field, and its audits are exactly the seven fixed
  identifiers, in their order, each with a \<^verbatim>\<open>score\<close> field and a \<^verbatim>\<open>displayValue\<close> that is
  either the string \<^verbatim>\<open>'N/A'\<close> or the \<^verbatim>\<open>displayValue\<close> of the upstream audit unchanged,
  whatever its type.
\<close>

theorem result_shape:
  assumes "snd (get_metrics stdout url t) = Inr r"
  shows "delivered_shape t r"
  using assms by (rule get_metrics_result)

theorem result_shape_witness:
  "snd (get_metrics utf8_stdout ''https://example.com'' (ok_response null_display_response))
     = Inr (normalized [] [(''interactive'', JObj [(''displayValue'', JNull)])]) \<and>
   delivered_shape (ok_response null_display_response)
     (normalized [] [(''interactive'', JObj [(''displayValue'', JNull)])])"
  using result_shape [OF null_display_result] null_display_result by simp
subsection \<open>The handler of score errors\<close>




section \<open>Properties of the exporter\<close>














end
